theory Spec2Isabelle
  imports Complex_Main "HOL-Library.Multiset" "HOL-Library.Char_ord" "HOL-Library.List_Lexorder"
begin

section \<open>Python strings and integers\<close>

text \<open>
  A Python \<open>str\<close> is modelled as a \<open>string\<close>: a list of 8-bit characters, read as the code
  points 0..255. On this range \<open>\d\<close> and \<open>str.isdigit\<close> hold of the ASCII digits only.
  Python's \<open>int\<close> is unbounded; offsets and lengths are never negative and are modelled
  as \<open>nat\<close>.
\<close>

definition is_digit :: "char \<Rightarrow> bool" where
  "is_digit c = (c \<in> set ''0123456789'')"

text \<open>\<open>str.isspace\<close> on the code points 0..255: TAB, LF, VT, FF, CR, FS, GS, RS, US, space,
  NEL and the no-break space.\<close>

definition is_space :: "char \<Rightarrow> bool" where
  "is_space c = (c \<in> set [CHR 0x09, CHR 0x0A, CHR 0x0B, CHR 0x0C, CHR 0x0D,
                           CHR 0x1C, CHR 0x1D, CHR 0x1E, CHR 0x1F, CHR 0x20,
                           CHR 0x85, CHR 0xA0])"

text \<open>\<open>s.strip()\<close>: leading and trailing whitespace removed.\<close>

definition strip :: "string \<Rightarrow> string" where
  "strip s = rev (dropWhile is_space (rev (dropWhile is_space s)))"

text \<open>\<open>s.lower()\<close> on the code points 0..255: A-Z and the upper-case letters 0xC0..0xDE
  (0xD7, the multiplication sign, apart) move up by 32.\<close>

definition lower_char :: "char \<Rightarrow> char" where
  "lower_char c =
     (let n = of_char c :: nat in
      if (65 \<le> n \<and> n \<le> 90) \<or> (192 \<le> n \<and> n \<le> 222 \<and> n \<noteq> 215)
      then char_of (n + 32) else c)"

definition lower :: "string \<Rightarrow> string" where
  "lower s = map lower_char s"

text \<open>\<open>sub in s\<close> on strings: \<open>sub\<close> occurs in \<open>s\<close> as a contiguous block.\<close>

fun starts_with :: "string \<Rightarrow> string \<Rightarrow> bool" where
  "starts_with [] s = True"
| "starts_with (p # ps) [] = False"
| "starts_with (p # ps) (c # cs) = (p = c \<and> starts_with ps cs)"

fun py_in :: "string \<Rightarrow> string \<Rightarrow> bool" where
  "py_in sub [] = (sub = [])"
| "py_in sub (c # cs) = (starts_with sub (c # cs) \<or> py_in sub cs)"

text \<open>\<open>'{}'.format(n)\<close> for an integer \<open>n \<ge> 0\<close>: its decimal digits, no leading zero.\<close>

definition digit_char :: "nat \<Rightarrow> char" where
  "digit_char d = ''0123456789'' ! d"

fun str_of_nat :: "nat \<Rightarrow> string" where
  "str_of_nat n =
     (if n < 10 then [digit_char n] else str_of_nat (n div 10) @ [digit_char (n mod 10)])"

declare str_of_nat.simps [simp del]

text \<open>\<open>int(s)\<close> for a string of decimal digits. Python's \<open>int\<close> also reads signs, blanks and
  underscores; the program only ever passes it what \<open>\d+\<close> matched or the literal \<open>'0'\<close>,
  and every other string is the \<open>ValueError\<close> branch here. Since CPython 3.11 (and the
  security releases of 3.7 to 3.10) \<open>int\<close> also raises \<open>ValueError\<close> on a string of more than
  \<open>sys.get_int_max_str_digits()\<close> digits, 4300 unless configured otherwise, leading zeros
  counted; the limit 0 switches the check off, which is also how older interpreters behave.
  The limit is the first argument of \<open>py_int\<close>.\<close>

definition digit_val :: "char \<Rightarrow> nat" where
  "digit_val c = length (takeWhile (\<lambda>d. d \<noteq> c) ''0123456789'')"

definition nat_of_digits :: "string \<Rightarrow> nat" where
  "nat_of_digits s = foldl (\<lambda>a c. 10 * a + digit_val c) 0 s"

section \<open>Errors\<close>

text \<open>
  Every \<open>raise\<close> of the program is a value. The program raises plain \<open>Exception(message)\<close>
  at four places; the constructor says which place (the names are the specification's) and
  carries the message. The other constructors are the exceptions the Python runtime and
  library raise on the program's behalf.
\<close>

datatype error =
    InvalidVersionLabel string
  | VersionOffsetOutOfRange string
  | UnsupportedArchitecture string
  | UnsupportedOperatingSystem string
  | AttributeError
  | TypeError
  | ValueError
  | OSError string
  | URLError string


definition py_int :: "nat \<Rightarrow> string \<Rightarrow> error + nat" where
  "py_int max_str_digits s =
     (if s \<noteq> [] \<and> list_all is_digit s \<and> (max_str_digits = 0 \<or> length s \<le> max_str_digits)
      then Inr (nat_of_digits s) else Inl ValueError)"

section \<open>Regular expressions\<close>

text \<open>
  The two patterns of the program are written as terms of \<open>regex\<close> and matched the way
  Python's \<open>re.match\<close> does: anchored at the start of the string, by backtracking, every
  quantifier greedy. \<open>re_alts r (s, g)\<close> lists, in the order the backtracking search tries
  them, the ways \<open>r\<close> can match a prefix of the remaining text \<open>s\<close>: each is the text left
  over and the groups captured so far. \<open>re.match\<close> returns the first.
  \<open>Star\<close> takes a single-character atom, which is all the program's patterns need.
  \<open>Dollar\<close> is Python's \<open>$\<close> without \<open>re.MULTILINE\<close>: the end of the string, or just before
  a newline that is the last character of the string.
\<close>

datatype atom = Lit char | Digit

datatype regex =
    Eps
  | Atom atom
  | Cat regex regex
  | Opt regex
  | Star atom
  | Group nat regex
  | Dollar

type_synonym groups = "nat \<rightharpoonup> string"

fun atom_ok :: "atom \<Rightarrow> char \<Rightarrow> bool" where
  "atom_ok (Lit l) c = (c = l)"
| "atom_ok Digit c = is_digit c"

fun star_alts :: "(char \<Rightarrow> bool) \<Rightarrow> string \<Rightarrow> string list" where
  "star_alts P [] = [[]]"
| "star_alts P (c # cs) = (if P c then star_alts P cs @ [c # cs] else [c # cs])"

fun re_alts :: "regex \<Rightarrow> string \<times> groups \<Rightarrow> (string \<times> groups) list" where
  "re_alts Eps st = [st]"
| "re_alts (Atom a) (s, g) =
     (case s of [] \<Rightarrow> [] | c # cs \<Rightarrow> if atom_ok a c then [(cs, g)] else [])"
| "re_alts (Cat r1 r2) st = concat (map (re_alts r2) (re_alts r1 st))"
| "re_alts (Opt r) st = re_alts r st @ [st]"
| "re_alts (Star a) (s, g) = map (\<lambda>s'. (s', g)) (star_alts (atom_ok a) s)"
| "re_alts (Group n r) (s, g) =
     map (\<lambda>(s', g'). (s', g'(n \<mapsto> take (length s - length s') s))) (re_alts r (s, g))"
| "re_alts Dollar (s, g) = (if s = [] \<or> s = [CHR 0x0A] then [(s, g)] else [])"

definition re_match :: "regex \<Rightarrow> string \<Rightarrow> groups option" where
  "re_match r s = (case re_alts r (s, Map.empty) of [] \<Rightarrow> None | (s', g) # alts \<Rightarrow> Some g)"

fun lit :: "string \<Rightarrow> regex" where
  "lit [] = Eps"
| "lit (c # cs) = Cat (Atom (Lit c)) (lit cs)"

definition Plus :: "atom \<Rightarrow> regex" where
  "Plus a = Cat (Atom a) (Star a)"

text \<open>\<open>LATEST_PATTERN = re.compile(r'latest(-(?P<offset>\d+))?$')\<close>; the group named
  \<open>offset\<close> is group 2.\<close>

definition offset_group :: nat where
  "offset_group = 2"

definition LATEST_PATTERN :: regex where
  "LATEST_PATTERN =
     Cat (lit ''latest'')
       (Cat (Opt (Group 1 (Cat (Atom (Lit CHR ''-'')) (Group offset_group (Plus Digit)))))
            Dollar)"

text \<open>The pattern of \<open>determine_url\<close>: \<open>r'(\d*\.\d*(?:\.\d*)?)(rc\d)?'\<close>.\<close>

definition VERSION_PATTERN :: regex where
  "VERSION_PATTERN =
     Cat (Group 1 (Cat (Star Digit) (Cat (Atom (Lit CHR ''.''))
            (Cat (Star Digit) (Opt (Cat (Atom (Lit CHR ''.'')) (Star Digit)))))))
         (Opt (Group 2 (Cat (lit ''rc'') (Atom Digit))))"

section \<open>The world the program runs in\<close>

text \<open>
  What the program reads and changes outside itself is a record that every operation takes
  and returns: the environment variables, the current directory, the home directory, the
  file system (a path is a regular file with its contents, or a directory; both have a
  modification time), the clock, the network (what \<open>urlopen(url)\<close> followed by reading the
  whole response gives, or the exception it raises), what \<open>platform.machine()\<close>,
  \<open>platform.system()\<close>, \<open>os.name\<close>, \<open>sys.argv\<close> and \<open>sys.get_int_max_str_digits()\<close> say, and
  how a started child process behaves. \<open>log\<close> records, in order, every access to the file system, the network and the
  child process, so that "no network call" is a statement about it.

  Times are real numbers of seconds. The operating system can refuse an access for more
  reasons than the record holds (permissions, a full disk, a missing parent directory);
  reading fails here exactly on a path that is not a regular file and writing exactly on a
  directory.

  \<open>json.loads\<close> and \<open>json.dumps\<close> are library functions the program calls on the cache file
  and on the release list. They are fields of the record as well, typed for the data the
  program expects: a release history is a list of strings, the release list a list of objects
  with a \<open>tag_name\<close> string and a \<open>prerelease\<close> boolean. \<open>json_loads_releases\<close> stands for
  \<open>json.loads(res.decode('utf-8'))\<close>. JSON of another shape is outside the model.
\<close>

datatype node = File string real | Dir real

fun mtime :: "node \<Rightarrow> real" where
  "mtime (File c t) = t"
| "mtime (Dir t) = t"

datatype wait_outcome = Exited int | Interrupted | WaitRaised error

datatype event =
    Exists string
  | GetMtime string
  | ReadFile string
  | WriteFile string
  | MakeDirs string
  | Chmod string nat
  | UrlOpen string
  | StderrWrite string
  | Popen "string list" bool
  | Wait

record release =
  tag_name :: string
  prerelease :: bool

record world =
  environ :: "string \<rightharpoonup> string"
  cwd :: string
  home :: string
  fs :: "string \<rightharpoonup> node"
  clock :: real
  urlopen :: "string \<Rightarrow> error + string"
  platform_machine :: string
  platform_system :: string
  os_name :: string
  sys_argv :: "string list"
  spawn :: "string list \<Rightarrow> error + (nat \<Rightarrow> wait_outcome)"
  json_loads_history :: "string \<Rightarrow> error + string list"
  json_loads_releases :: "string \<Rightarrow> error + release list"
  json_dumps :: "string list \<Rightarrow> string"
  int_max_str_digits :: nat
  log :: "event list"

definition record_event :: "event \<Rightarrow> world \<Rightarrow> world" where
  "record_event e w = w\<lparr>log := log w @ [e]\<rparr>"

text \<open>\<open>os.path.exists\<close>, \<open>os.path.getmtime\<close>, \<open>open(path, 'r').read()\<close>,
  \<open>open(path, 'w').write(data)\<close> (also \<open>'wb'\<close>) and \<open>os.chmod\<close>.\<close>

definition os_path_exists :: "world \<Rightarrow> string \<Rightarrow> bool \<times> world" where
  "os_path_exists w path = (fs w path \<noteq> None, record_event (Exists path) w)"

definition os_path_getmtime :: "world \<Rightarrow> string \<Rightarrow> (error + real) \<times> world" where
  "os_path_getmtime w path =
     (case fs w path of
        None \<Rightarrow> (Inl (OSError path), record_event (GetMtime path) w)
      | Some n \<Rightarrow> (Inr (mtime n), record_event (GetMtime path) w))"

definition read_file :: "world \<Rightarrow> string \<Rightarrow> (error + string) \<times> world" where
  "read_file w path =
     (case fs w path of
        Some (File c t) \<Rightarrow> (Inr c, record_event (ReadFile path) w)
      | _ \<Rightarrow> (Inl (OSError path), record_event (ReadFile path) w))"

definition write_file :: "world \<Rightarrow> string \<Rightarrow> string \<Rightarrow> (error + unit) \<times> world" where
  "write_file w path data =
     (case fs w path of
        Some (Dir t) \<Rightarrow> (Inl (OSError path), record_event (WriteFile path) w)
      | _ \<Rightarrow> (Inr (), record_event (WriteFile path) (w\<lparr>fs := (fs w)(path \<mapsto> File data (clock w))\<rparr>)))"


text \<open>\<open>os.path.join(a, b)\<close> and \<open>os.path.dirname(p)\<close> as \<open>posixpath\<close> defines them.\<close>

definition path_join :: "string \<Rightarrow> string \<Rightarrow> string" where
  "path_join a b =
     (if starts_with ''/'' b then b
      else if a = [] \<or> last a = CHR ''/'' then a @ b
      else a @ ''/'' @ b)"





section \<open>\<open>distutils.version.LooseVersion\<close> and \<open>sorted\<close>\<close>

text \<open>
  \<open>LooseVersion(s)\<close> keeps \<open>s\<close> for \<open>str\<close> and splits it at the matches of
  \<open>(\d+ | [a-z]+ | \.)\<close>: the components are the maximal runs of digits (turned into
  integers by \<open>int\<close> inside \<open>try ... except ValueError: pass\<close>, so a run \<open>int\<close> refuses stays a
  string), the maximal runs of lower-case letters, and the runs of other characters
  between them; the dots are dropped. For the empty string the constructor parses nothing,
  and the object has neither attribute.
\<close>

datatype component = CInt nat | CStr string

datatype loose_version = LooseVer string "component list" | LooseVerUnparsed

definition is_lower_az :: "char \<Rightarrow> bool" where
  "is_lower_az c = (c \<in> set ''abcdefghijklmnopqrstuvwxyz'')"

definition lv_class :: "char \<Rightarrow> nat" where
  "lv_class c = (if is_digit c then 0 else if is_lower_az c then 1 else 2)"

fun lv_split :: "string \<Rightarrow> string list" where
  "lv_split [] = []"
| "lv_split (c # cs) =
     (if c = CHR ''.'' then lv_split cs
      else if cs \<noteq> [] \<and> hd cs \<noteq> CHR ''.'' \<and> lv_class c = lv_class (hd cs)
      then (case lv_split cs of [] \<Rightarrow> [[c]] | t # ts \<Rightarrow> (c # t) # ts)
      else [c] # lv_split cs)"

definition lv_component :: "nat \<Rightarrow> string \<Rightarrow> component" where
  "lv_component max_str_digits x =
     (case py_int max_str_digits x of Inr n \<Rightarrow> CInt n | Inl e \<Rightarrow> CStr x)"

definition LooseVersion :: "nat \<Rightarrow> string \<Rightarrow> loose_version" where
  "LooseVersion max_str_digits vstring =
     (if vstring = [] then LooseVerUnparsed
      else LooseVer vstring (map (lv_component max_str_digits) (lv_split vstring)))"

definition loose_str :: "loose_version \<Rightarrow> error + string" where
  "loose_str v = (case v of LooseVer vstring comps \<Rightarrow> Inr vstring | LooseVerUnparsed \<Rightarrow> Inl AttributeError)"

text \<open>Python compares two lists at the first position where they differ (by \<open>==\<close>, under
  which an integer never equals a string); comparing an integer with a string by \<open><\<close> raises
  \<open>TypeError\<close>. Strings compare by code point.\<close>

fun component_lt :: "component \<Rightarrow> component \<Rightarrow> error + bool" where
  "component_lt (CInt a) (CInt b) = Inr (a < b)"
| "component_lt (CStr a) (CStr b) = Inr (a < b)"
| "component_lt (CInt a) (CStr b) = Inl TypeError"
| "component_lt (CStr a) (CInt b) = Inl TypeError"

fun list_lt :: "component list \<Rightarrow> component list \<Rightarrow> error + bool" where
  "list_lt [] [] = Inr False"
| "list_lt [] (y # ys) = Inr True"
| "list_lt (x # xs) [] = Inr False"
| "list_lt (x # xs) (y # ys) = (if x = y then list_lt xs ys else component_lt x y)"

text \<open>\<open>LooseVersion._cmp\<close> and \<open>Version.__lt__\<close>.\<close>

definition loose_cmp :: "loose_version \<Rightarrow> loose_version \<Rightarrow> error + int" where
  "loose_cmp a b =
     (case (a, b) of
        (LooseVer sa va, LooseVer sb vb) \<Rightarrow>
          if va = vb then Inr 0
          else (case list_lt va vb of
                  Inl e \<Rightarrow> Inl e
                | Inr True \<Rightarrow> Inr (- 1)
                | Inr False \<Rightarrow>
                    (case list_lt vb va of
                       Inl e \<Rightarrow> Inl e
                     | Inr True \<Rightarrow> Inr 1
                     | Inr False \<Rightarrow> Inl TypeError))
      | _ \<Rightarrow> Inl AttributeError)"

definition loose_lt :: "loose_version \<Rightarrow> loose_version \<Rightarrow> error + bool" where
  "loose_lt a b = (case loose_cmp a b of Inl e \<Rightarrow> Inl e | Inr c \<Rightarrow> Inr (c < 0))"

text \<open>
  \<open>sorted(xs, reverse=True)\<close>: the list is reversed, sorted into ascending order by a stable
  sort that compares with \<open><\<close> only, and reversed again. The stable sort here is insertion
  from the left, each element going behind the elements it is not less than. On a list whose
  elements can all be compared this is the result of any stable sort, Python's included;
  on a list with an integer component facing a string one, whether \<open>TypeError\<close> is raised
  depends on which pairs the sort compares, and this model stands for Python's only where
  no pair raises.
\<close>

fun insort_lt :: "loose_version \<Rightarrow> loose_version list \<Rightarrow> error + loose_version list" where
  "insort_lt x [] = Inr [x]"
| "insort_lt x (y # ys) =
     (case loose_lt x y of
        Inl e \<Rightarrow> Inl e
      | Inr True \<Rightarrow> Inr (x # y # ys)
      | Inr False \<Rightarrow> (case insort_lt x ys of Inl e \<Rightarrow> Inl e | Inr zs \<Rightarrow> Inr (y # zs)))"

fun sort_lt :: "loose_version list \<Rightarrow> loose_version list \<Rightarrow> error + loose_version list" where
  "sort_lt acc [] = Inr acc"
| "sort_lt acc (x # xs) = (case insort_lt x acc of Inl e \<Rightarrow> Inl e | Inr acc' \<Rightarrow> sort_lt acc' xs)"

definition sorted_reverse :: "loose_version list \<Rightarrow> error + loose_version list" where
  "sorted_reverse xs = (case sort_lt [] (rev xs) of Inl e \<Rightarrow> Inl e | Inr ys \<Rightarrow> Inr (rev ys))"

fun str_each :: "loose_version list \<Rightarrow> error + string list" where
  "str_each [] = Inr []"
| "str_each (v # vs) =
     (case loose_str v of
        Inl e \<Rightarrow> Inl e
      | Inr s \<Rightarrow> (case str_each vs of Inl e \<Rightarrow> Inl e | Inr ss \<Rightarrow> Inr (s # ss)))"

section \<open>The program\<close>

definition ONE_HOUR :: real where
  "ONE_HOUR = 1 * 60 * 60"

definition BAZEL_RELEASES_URL :: string where
  "BAZEL_RELEASES_URL = ''https://api.github.com/repos/bazelbuild/bazel/releases''"

definition quoted :: "string \<Rightarrow> string" where
  "quoted s = CHR 0x22 # s @ [CHR 0x22]"

subsection \<open>\<open>find_workspace_root\<close> and \<open>decide_which_bazel_version_to_use\<close>\<close>




subsection \<open>\<open>get_version_history_from_github\<close>, \<open>get_version_history\<close>\<close>

definition get_version_history_from_github :: "world \<Rightarrow> (error + string list) \<times> world" where
  "get_version_history_from_github w =
     (let w1 = record_event (UrlOpen BAZEL_RELEASES_URL) w
      in case urlopen w BAZEL_RELEASES_URL of
           Inl e \<Rightarrow> (Inl e, w1)
         | Inr res \<Rightarrow>
             (case json_loads_releases w res of
                Inl e \<Rightarrow> (Inl e, w1)
              | Inr releases \<Rightarrow>
                  (case sorted_reverse
                          (map (\<lambda>release. LooseVersion (int_max_str_digits w) (tag_name release))
                             (filter (\<lambda>release. \<not> prerelease release) releases)) of
                     Inl e \<Rightarrow> (Inl e, w1)
                   | Inr ordered \<Rightarrow> (str_each ordered, w1))))"

definition get_version_history :: "world \<Rightarrow> string \<Rightarrow> (error + string list) \<times> world" where
  "get_version_history w bazelisk_directory =
     (let latest_cache = path_join bazelisk_directory ''latest_bazel'';
          refresh = (\<lambda>w'.
            case get_version_history_from_github w' of
              (Inl e, w1) \<Rightarrow> (Inl e, w1)
            | (Inr history, w1) \<Rightarrow>
                (case write_file w1 latest_cache (json_dumps w1 history) of
                   (Inl e, w2) \<Rightarrow> (Inl e, w2)
                 | (Inr u, w2) \<Rightarrow> (Inr history, w2)));
          (found, w1) = os_path_exists w latest_cache
      in if found
         then (case os_path_getmtime w1 latest_cache of
                 (Inl e, w2) \<Rightarrow> (Inl e, w2)
               | (Inr t, w2) \<Rightarrow>
                   if \<bar>clock w2 - t\<bar> < ONE_HOUR
                   then (case read_file w2 latest_cache of
                           (Inl e, w3) \<Rightarrow> (Inl e, w3)
                         | (Inr text, w3) \<Rightarrow> (json_loads_history w3 (strip text), w3))
                   else refresh w2)
         else refresh w1)"

subsection \<open>\<open>resolve_latest_version\<close>, \<open>resolve_version_label_to_number\<close>\<close>

definition resolve_latest_version :: "string list \<Rightarrow> nat \<Rightarrow> error + string" where
  "resolve_latest_version version_history offset =
     (if offset \<ge> length version_history
      then (let version = (if offset \<noteq> 0 then ''latest-'' @ str_of_nat offset else ''latest'')
            in Inl (VersionOffsetOutOfRange
                 (''Cannot resolve version '' @ quoted version @ '': There are only ''
                    @ str_of_nat (length version_history) @ '' Bazel releases.'')))
      else Inr (version_history ! offset))"

definition invalid_version_message :: "string \<Rightarrow> string" where
  "invalid_version_message version =
     ''Invalid version '' @ quoted version @ ''. In addition to using a version ''
       @ ''number such as '' @ quoted ''0.20.0'' @ '', you can use values such as ''
       @ quoted ''latest'' @ '' and '' @ quoted ''latest-N'' @ '', with N being a non-negative ''
       @ ''integer.''"

definition resolve_version_label_to_number ::
  "world \<Rightarrow> string \<Rightarrow> string \<Rightarrow> (error + string) \<times> world" where
  "resolve_version_label_to_number w bazelisk_directory version =
     (if py_in ''latest'' version
      then (case re_match LATEST_PATTERN version of
              None \<Rightarrow> (Inl (InvalidVersionLabel (invalid_version_message version)), w)
            | Some m \<Rightarrow>
                (case get_version_history w bazelisk_directory of
                   (Inl e, w1) \<Rightarrow> (Inl e, w1)
                 | (Inr history, w1) \<Rightarrow>
                     (case py_int (int_max_str_digits w) (case m offset_group of
                                     None \<Rightarrow> ''0''
                                   | Some d \<Rightarrow> if d = [] then ''0'' else d) of
                        Inl e \<Rightarrow> (Inl e, w1)
                      | Inr offset \<Rightarrow> (resolve_latest_version history offset, w1))))
      else (Inr version, w))"

subsection \<open>\<open>determine_bazel_filename\<close>, \<open>determine_url\<close>, \<open>download_bazel_into_directory\<close>\<close>

definition normalized_machine_arch_name :: "world \<Rightarrow> string" where
  "normalized_machine_arch_name w =
     (let m = lower (platform_machine w) in if m = ''amd64'' then ''x86_64'' else m)"

definition determine_bazel_filename :: "world \<Rightarrow> string \<Rightarrow> error + string" where
  "determine_bazel_filename w version =
     (let m = normalized_machine_arch_name w
      in if m \<noteq> ''x86_64''
         then Inl (UnsupportedArchitecture
                (''Unsupported machine architecture '' @ quoted m
                   @ ''. Bazel currently only supports x86_64.''))
         else (let operating_system = lower (platform_system w)
               in if operating_system \<notin> set [''linux'', ''darwin'', ''windows'']
                  then Inl (UnsupportedOperatingSystem
                         (''Unsupported operating system '' @ quoted operating_system @ ''. ''
                            @ ''Bazel currently only supports Linux, macOS and Windows.''))
                  else (let filename_ending =
                              (if operating_system = ''windows'' then ''.exe'' else [])
                        in Inr (''bazel-'' @ version @ ''-'' @ operating_system @ ''-'' @ m
                                  @ filename_ending))))"

text \<open>\<open>re.match(...).groups()\<close> on a failed match is \<open>None.groups()\<close>: \<open>AttributeError\<close>.
  \<open>'{}'.format(None)\<close> is \<open>'None'\<close>.\<close>

definition determine_url :: "string \<Rightarrow> string \<Rightarrow> error + string" where
  "determine_url version bazel_filename =
     (case re_match VERSION_PATTERN version of
        None \<Rightarrow> Inl AttributeError
      | Some g \<Rightarrow>
          (let base = (case g 1 of None \<Rightarrow> ''None'' | Some b \<Rightarrow> b);
               rc = g 2
           in Inr (''https://releases.bazel.build/'' @ base @ ''/''
                     @ (case rc of None \<Rightarrow> ''release'' | Some r \<Rightarrow> if r \<noteq> [] then r else ''release'')
                     @ ''/'' @ bazel_filename)))"


subsection \<open>\<open>maybe_makedirs\<close>, \<open>execute_bazel\<close>, \<open>main\<close>\<close>






section \<open>Closed forms and an example world\<close>

text \<open>
  The definitions of this section are not part of the program: they state what the program
  computes in closed form, and give a concrete world on which the theorems are instantiated.
\<close>

text \<open>What \<open>LATEST_PATTERN.match(version)\<close> yields for the group \<open>offset\<close>: \<open>None\<close> when there is
  no match, \<open>Some None\<close> when the label matches without an offset, \<open>Some (Some ds)\<close> when it
  matches with the digits \<open>ds\<close>.\<close>

definition latest_offset_text :: "string \<Rightarrow> string option option" where
  "latest_offset_text version =
     (if \<not> starts_with ''latest'' version then None
      else (let rest = drop 6 version
            in if rest = [] \<or> rest = [CHR 0x0A] then Some None
               else (case rest of
                       [] \<Rightarrow> None
                     | c # r1 \<Rightarrow>
                         (let ds = takeWhile is_digit r1; after = dropWhile is_digit r1
                          in if c = CHR ''-'' \<and> ds \<noteq> [] \<and> (after = [] \<or> after = [CHR 0x0A])
                             then Some (Some ds) else None))))"

definition example_history_text :: string where
  "example_history_text = ''['' @ quoted ''1.0.0'' @ '', '' @ quoted ''0.29.1'' @ '']''"

definition example_json_dumps :: "string list \<Rightarrow> string" where
  "example_json_dumps h = ''['' @ concat (map (\<lambda>s. quoted s @ '','') h) @ '']''"

definition example_world :: world where
  "example_world =
     \<lparr> environ = Map.empty,
       cwd = ''/w/p'',
       home = ''/home/u'',
       fs = [''/w/WORKSPACE'' \<mapsto> File [] 0,
             ''/w/.bazelversion'' \<mapsto> File (''  4.5.6'' @ [CHR 0x0A]) 0,
             ''/home/u/.bazelisk'' \<mapsto> Dir 0,
             ''/home/u/.bazelisk/latest_bazel'' \<mapsto> File example_history_text 5000],
       clock = 6000,
       urlopen = (\<lambda>url. if url = BAZEL_RELEASES_URL then Inr ''releases'' else Inr ''binary''),
       platform_machine = ''AMD64'',
       platform_system = ''Linux'',
       os_name = ''posix'',
       sys_argv = [''bazelisk'', ''build'', ''//...''],
       spawn = (\<lambda>args. Inr (\<lambda>k. if k < 2 then Interrupted else Exited 3)),
       json_loads_history =
         (\<lambda>s. if s = example_history_text then Inr [''1.0.0'', ''0.29.1''] else Inl ValueError),
       json_loads_releases =
         (\<lambda>s. if s = ''releases''
              then Inr [\<lparr>tag_name = ''0.9.0'', prerelease = False\<rparr>,
                        \<lparr>tag_name = ''0.20.0'', prerelease = False\<rparr>,
                        \<lparr>tag_name = ''0.21.0rc1'', prerelease = True\<rparr>,
                        \<lparr>tag_name = ''0.19.2'', prerelease = False\<rparr>]
              else Inl ValueError),
       json_dumps = example_json_dumps,
       int_max_str_digits = 4300,
       log = [] \<rparr>"

text \<open>The first element of a list, if any: \<open>re.match\<close> returns the first alternative.\<close>

definition first :: "'a list \<Rightarrow> 'a option" where
  "first xs = (case xs of [] \<Rightarrow> None | x # rest \<Rightarrow> Some x)"

text \<open>What the pattern of \<open>determine_url\<close> captures at the start of a version, greedily: the
  leading digits (possibly none), a dot, the digits after it (possibly none) and, when a dot
  follows, that dot and the digits after it (possibly none) form the base; \<open>rc\<close> and one digit,
  when they come next, form the release-candidate part; what follows is not looked at. There
  is no match when the leading digits are not followed by a dot.\<close>

definition version_split :: "string \<Rightarrow> (string \<times> string option) option" where
  "version_split v =
     (let d1 = takeWhile is_digit v; r1 = dropWhile is_digit v
      in case r1 of
           [] \<Rightarrow> None
         | c # r2 \<Rightarrow>
             if c \<noteq> CHR ''.'' then None
             else (let d2 = takeWhile is_digit r2; r3 = dropWhile is_digit r2;
                       third = (case r3 of
                                  [] \<Rightarrow> []
                                | c3 # r4 \<Rightarrow> if c3 = CHR ''.'' then c3 # takeWhile is_digit r4 else []);
                       r5 = drop (length third) r3;
                       rc = (if starts_with ''rc'' r5 \<and> 3 \<le> length r5 \<and> is_digit (r5 ! 2)
                             then Some (take 3 r5) else None)
                   in Some (d1 @ [c] @ d2 @ third, rc)))"

section \<open>Strings and decimal numerals\<close>

lemma starts_with_iff: "starts_with p s \<longleftrightarrow> (\<exists>t. s = p @ t)"
  by (induction p s rule: starts_with.induct) auto

lemma py_in_iff: "py_in sub s \<longleftrightarrow> (\<exists>p t. s = p @ sub @ t)"
proof (induction s)
  case Nil
  then show ?case by simp
next
  case (Cons c cs)
  show ?case
  proof
    assume "py_in sub (c # cs)"
    then consider "starts_with sub (c # cs)" | "py_in sub cs" by auto
    then show "\<exists>p t. c # cs = p @ sub @ t"
    proof cases
      case 1
      then obtain t where "c # cs = sub @ t" by (auto simp: starts_with_iff)
      then have "c # cs = [] @ sub @ t" by simp
      then show ?thesis by blast
    next
      case 2
      with Cons obtain p t where "cs = p @ sub @ t" by auto
      then have "c # cs = (c # p) @ sub @ t" by simp
      then show ?thesis by blast
    qed
  next
    assume "\<exists>p t. c # cs = p @ sub @ t"
    then obtain p t where e: "c # cs = p @ sub @ t" by blast
    show "py_in sub (c # cs)"
    proof (cases p)
      case Nil
      with e have "starts_with sub (c # cs)" unfolding starts_with_iff by auto
      then show ?thesis by simp
    next
      case (Cons a p')
      with e have "cs = p' @ sub @ t" by simp
      with Cons.IH show ?thesis by auto
    qed
  qed
qed

lemma digit_char_props: "d < 10 \<Longrightarrow> is_digit (digit_char d) \<and> digit_val (digit_char d) = d"
proof -
  assume "d < 10"
  then consider "d = 0" | "d = 1" | "d = 2" | "d = 3" | "d = 4" | "d = 5" | "d = 6" | "d = 7"
    | "d = 8" | "d = 9" by atomize_elim arith
  then show ?thesis
    by cases (simp_all add: digit_char_def is_digit_def digit_val_def)
qed

lemma str_of_nat_digits: "str_of_nat n \<noteq> [] \<and> list_all is_digit (str_of_nat n)"
proof (induction n rule: str_of_nat.induct)
  case (1 n)
  show ?case
  proof (cases "n < 10")
    case True
    then show ?thesis by (subst (1 2) str_of_nat.simps) (simp add: digit_char_props)
  next
    case False
    with 1 show ?thesis
      by (subst (1 2) str_of_nat.simps) (simp add: digit_char_props)
  qed
qed

lemma nat_of_digits_snoc: "nat_of_digits (ds @ [c]) = 10 * nat_of_digits ds + digit_val c"
  by (simp add: nat_of_digits_def)

lemma nat_of_digits_str_of_nat: "nat_of_digits (str_of_nat n) = n"
proof (induction n rule: str_of_nat.induct)
  case (1 n)
  show ?case
  proof (cases "n < 10")
    case True
    then show ?thesis
      by (subst str_of_nat.simps) (simp add: nat_of_digits_def digit_char_props)
  next
    case False
    with 1 have "nat_of_digits (str_of_nat (n div 10)) = n div 10" by simp
    with False show ?thesis
      by (subst str_of_nat.simps) (simp add: nat_of_digits_snoc digit_char_props)
  qed
qed

section \<open>What \<open>LATEST_PATTERN\<close> matches\<close>

lemma re_alts_lit:
  "re_alts (lit p) (s, g) = (if starts_with p s then [(drop (length p) s, g)] else [])"
proof (induction p arbitrary: s)
  case Nil
  then show ?case by simp
next
  case (Cons c p)
  show ?case
  proof (cases s)
    case Nil
    then show ?thesis by simp
  next
    case (Cons d ds)
    with Cons.IH show ?thesis by auto
  qed
qed

lemma star_alts_then:
  assumes dead: "\<And>r. r \<noteq> [] \<Longrightarrow> P (hd r) \<Longrightarrow> k r = []"
  shows "concat (map k (star_alts P s)) = k (dropWhile P s)"
proof (induction s)
  case Nil
  then show ?case by simp
next
  case (Cons c cs)
  show ?case
  proof (cases "P c")
    case True
    then have "k (c # cs) = []" using dead [of "c # cs"] by simp
    with True Cons show ?thesis by simp
  next
    case False
    then show ?thesis by simp
  qed
qed

lemma star_alts_hd: "star_alts P s = dropWhile P s # tl (star_alts P s)"
proof (induction s)
  case Nil
  then show ?case by simp
next
  case (Cons c cs)
  show ?case
  proof (cases "P c")
    case True
    with Cons show ?thesis
      by simp (metis append_Cons list.sel(3))
  next
    case False
    then show ?thesis by simp
  qed
qed

lemma take_takeWhile: "take (length xs - length (dropWhile P xs)) xs = takeWhile P xs"
proof -
  have "length xs - length (dropWhile P xs) = length (takeWhile P xs)"
    by (metis add_diff_cancel_right' length_append takeWhile_dropWhile_id)
  then show ?thesis
    by (metis append_eq_conv_conj takeWhile_dropWhile_id)
qed

lemma digits_then_dollar:
  "concat (map (\<lambda>r. if r = [] \<or> r = [CHR 0x0A] then [(r, G r)] else []) (star_alts is_digit s))
     = (if dropWhile is_digit s = [] \<or> dropWhile is_digit s = [CHR 0x0A]
        then [(dropWhile is_digit s, G (dropWhile is_digit s))] else [])"
  by (rule star_alts_then) (auto simp: is_digit_def)

lemma atom_ok_Digit: "atom_ok Digit = is_digit"
  by (rule ext) simp

lemma offset_part_alts:
  "re_alts (Group (Suc 0) (Cat (Atom (Lit CHR ''-'')) (Group offset_group (Plus Digit)))) (rest, g) =
     (case rest of
        [] \<Rightarrow> []
      | c # r1 \<Rightarrow>
          if c = CHR ''-''
          then (case r1 of
                  [] \<Rightarrow> []
                | d # cs \<Rightarrow>
                    if is_digit d
                    then map (\<lambda>s'. (s', g(offset_group \<mapsto> take (length r1 - length s') r1,
                                            Suc 0 \<mapsto> take (length rest - length s') rest)))
                           (star_alts is_digit cs)
                    else [])
          else [])"
  by (simp add: Plus_def comp_def atom_ok_Digit split: list.splits)

lemma latest_tail_alts:
  "re_alts (Cat (Opt (Group 1 (Cat (Atom (Lit CHR ''-'')) (Group offset_group (Plus Digit))))) Dollar)
      (rest, Map.empty) =
     (case rest of
        [] \<Rightarrow> [([], Map.empty)]
      | c # r1 \<Rightarrow>
          if c = CHR ''-''
          then (case r1 of
                  [] \<Rightarrow> []
                | d # cs \<Rightarrow>
                    if is_digit d \<and> (dropWhile is_digit cs = [] \<or> dropWhile is_digit cs = [CHR 0x0A])
                    then [(dropWhile is_digit cs,
                           [offset_group \<mapsto> takeWhile is_digit r1,
                            1 \<mapsto> c # takeWhile is_digit r1])]
                    else [])
          else if rest = [CHR 0x0A] then [(rest, Map.empty)] else [])"
proof (cases rest)
  case Nil
  then show ?thesis by (simp add: offset_part_alts del: re_alts.simps(6))
next
  case (Cons c r1)
  note rest = this
  show ?thesis
  proof (cases "c = CHR ''-''")
    case False
    with rest show ?thesis by (simp add: offset_part_alts del: re_alts.simps(6))
  next
    case dash: True
    show ?thesis
    proof (cases r1)
      case Nil
      with rest dash show ?thesis by (simp add: offset_part_alts del: re_alts.simps(6))
    next
      case (Cons d cs)
      note r1 = this
      show ?thesis
      proof (cases "is_digit d")
        case False
        with rest dash r1 show ?thesis by (simp add: offset_part_alts del: re_alts.simps(6))
      next
        case dig: True
        define G :: "string \<Rightarrow> groups" where
          "G = (\<lambda>s'. [offset_group \<mapsto> take (length r1 - length s') r1,
                      Suc 0 \<mapsto> take (length rest - length s') rest])"
        define after where "after = dropWhile is_digit cs"
        have "re_alts (Cat (Opt (Group 1 (Cat (Atom (Lit CHR ''-''))
                  (Group offset_group (Plus Digit))))) Dollar) (rest, Map.empty)
              = concat (map (\<lambda>r. if r = [] \<or> r = [CHR 0x0A] then [(r, G r)] else [])
                  (star_alts is_digit cs))"
          unfolding G_def rest r1 using dash dig
          by (simp add: offset_part_alts comp_def del: re_alts.simps(6) cong: if_cong)
        also have "\<dots> = (if after = [] \<or> after = [CHR 0x0A] then [(after, G after)] else [])"
          unfolding after_def by (rule digits_then_dollar)
        finally have alts: "re_alts (Cat (Opt (Group 1 (Cat (Atom (Lit CHR ''-''))
                  (Group offset_group (Plus Digit))))) Dollar) (rest, Map.empty)
              = (if after = [] \<or> after = [CHR 0x0A] then [(after, G after)] else [])" .
        have "length r1 - length after = length (d # takeWhile is_digit cs)"
          unfolding r1 after_def
          by (simp add: Suc_diff_le length_dropWhile_le)
             (metis add_diff_cancel_right' length_append takeWhile_dropWhile_id)
        moreover have "r1 = (d # takeWhile is_digit cs) @ after"
          unfolding r1 after_def by simp
        ultimately have t1: "take (length r1 - length after) r1 = d # takeWhile is_digit cs"
          by (metis append_eq_conv_conj)
        have "length rest - length after = length (c # d # takeWhile is_digit cs)"
          unfolding rest r1 after_def
          by (simp add: Suc_diff_le length_dropWhile_le le_SucI)
             (metis add_diff_cancel_right' length_append takeWhile_dropWhile_id)
        moreover have "rest = (c # d # takeWhile is_digit cs) @ after"
          unfolding rest r1 after_def by simp
        ultimately have t2: "take (length rest - length after) rest = c # d # takeWhile is_digit cs"
          by (metis append_eq_conv_conj)
        have G: "G after = [offset_group \<mapsto> takeWhile is_digit r1, 1 \<mapsto> c # takeWhile is_digit r1]"
          unfolding G_def t1 t2 using dig r1 by simp
        show ?thesis
          unfolding alts G using rest dash r1 dig by (simp add: after_def)
      qed
    qed
  qed
qed

lemma LATEST_PATTERN_match:
  "map_option (\<lambda>g. g offset_group) (re_match LATEST_PATTERN version) = latest_offset_text version"
proof (cases "starts_with ''latest'' version")
  case False
  then show ?thesis
    by (simp add: re_match_def LATEST_PATTERN_def latest_offset_text_def re_alts_lit
          del: lit.simps starts_with.simps)
next
  case True
  have six: "length ''latest'' = 6" by simp
  have alts: "re_alts LATEST_PATTERN (version, Map.empty)
      = re_alts (Cat (Opt (Group 1 (Cat (Atom (Lit CHR ''-'')) (Group offset_group (Plus Digit))))) Dollar)
          (drop 6 version, Map.empty)"
    unfolding LATEST_PATTERN_def re_alts.simps(3) [of "lit ''latest''"] re_alts_lit six
    using True by simp
  show ?thesis
    unfolding re_match_def alts latest_tail_alts latest_offset_text_def
    using True by (auto simp: Let_def offset_group_def split: list.splits)
qed

section \<open>What the pattern of \<open>determine_url\<close> matches\<close>

lemma re_match_first: "re_match r s = map_option snd (first (re_alts r (s, Map.empty)))"
  by (simp add: re_match_def first_def split: list.splits)

lemma first_Nil [simp]: "first [] = None" and first_Cons [simp]: "first (x # xs) = Some x"
  by (simp_all add: first_def)

lemma first_append: "first (xs @ ys) = (case first xs of None \<Rightarrow> first ys | Some x \<Rightarrow> Some x)"
  by (cases xs) simp_all

lemma first_map: "first (map f xs) = map_option f (first xs)"
  by (cases xs) simp_all

lemma first_concat_map_Some:
  "first xs = Some x \<Longrightarrow> first (k x) \<noteq> None \<Longrightarrow> first (concat (map k xs)) = first (k x)"
  by (cases xs) (auto simp add: first_append)

lemma first_concat_map_None: "first xs = None \<Longrightarrow> first (concat (map k xs)) = None"
  by (cases xs) simp_all

lemma first_star_alts: "first (star_alts P s) = Some (dropWhile P s)"
  by (subst star_alts_hd) simp

lemma dot_digits_alts:
  "re_alts (Cat (Atom (Lit CHR ''.'')) (Star Digit)) (r3, g) =
     (case r3 of [] \<Rightarrow> []
      | c3 # r4 \<Rightarrow> if c3 = CHR ''.'' then map (\<lambda>s'. (s', g)) (star_alts is_digit r4) else [])"
  by (simp add: atom_ok_Digit split: list.splits)

lemma first_third_part:
  "first (re_alts (Opt (Cat (Atom (Lit CHR ''.'')) (Star Digit))) (r3, g)) =
     Some (case r3 of [] \<Rightarrow> (r3, g)
           | c3 # r4 \<Rightarrow> if c3 = CHR ''.'' then (dropWhile is_digit r4, g) else (r3, g))"
  unfolding re_alts.simps(4) dot_digits_alts
  by (simp add: first_append first_map first_star_alts split: list.splits)

lemma first_second_part:
  "first (re_alts (Cat (Star Digit) (Opt (Cat (Atom (Lit CHR ''.'')) (Star Digit)))) (r2, g)) =
     first (re_alts (Opt (Cat (Atom (Lit CHR ''.'')) (Star Digit))) (dropWhile is_digit r2, g))"
  unfolding re_alts.simps(3) re_alts.simps(5) atom_ok_Digit
proof (rule first_concat_map_Some)
  show "first (map (\<lambda>s'. (s', g)) (star_alts is_digit r2)) = Some (dropWhile is_digit r2, g)"
    by (simp add: first_map first_star_alts)
  show "first (re_alts (Opt (Cat (Atom (Lit CHR ''.'')) (Star Digit))) (dropWhile is_digit r2, g))
      \<noteq> None"
    unfolding first_third_part by simp
qed

lemma base_alts:
  "re_alts (Cat (Star Digit) (Cat (Atom (Lit CHR ''.''))
        (Cat (Star Digit) (Opt (Cat (Atom (Lit CHR ''.'')) (Star Digit)))))) (v, g) =
     (case dropWhile is_digit v of
        [] \<Rightarrow> []
      | c # r2 \<Rightarrow>
          if c = CHR ''.''
          then re_alts (Cat (Star Digit) (Opt (Cat (Atom (Lit CHR ''.'')) (Star Digit)))) (r2, g)
          else [])"
proof -
  let ?B2 = "Cat (Star Digit) (Opt (Cat (Atom (Lit CHR ''.'')) (Star Digit)))"
  let ?k = "\<lambda>r. re_alts (Cat (Atom (Lit CHR ''.'')) ?B2) (r, g)"
  have dead: "?k r = []" if "r \<noteq> []" "is_digit (hd r)" for r
    using that by (cases r) (auto simp: is_digit_def)
  have "re_alts (Cat (Star Digit) (Cat (Atom (Lit CHR ''.'')) ?B2)) (v, g)
          = concat (map ?k (star_alts is_digit v))"
    unfolding re_alts.simps(3) [of "Star Digit"] re_alts.simps(5) atom_ok_Digit
    by (simp add: comp_def del: re_alts.simps)
  also have "\<dots> = ?k (dropWhile is_digit v)"
    using dead by (rule star_alts_then)
  also have "\<dots> = (case dropWhile is_digit v of [] \<Rightarrow> []
      | c # r2 \<Rightarrow> if c = CHR ''.'' then re_alts ?B2 (r2, g) else [])"
  proof -
    have "?k r = (case r of [] \<Rightarrow> []
      | c # r2 \<Rightarrow> if c = CHR ''.'' then re_alts ?B2 (r2, g) else [])" for r
      by (cases r) (simp_all del: re_alts.simps(5))
    then show ?thesis .
  qed
  finally show ?thesis .
qed

lemma rc_alts:
  "re_alts (Cat (lit ''rc'') (Atom Digit)) (s, g) =
     (if starts_with ''rc'' s \<and> 3 \<le> length s \<and> is_digit (s ! 2) then [(drop 3 s, g)] else [])"
proof -
  have two: "length ''rc'' = 2" by simp
  show ?thesis
  proof (cases s)
    case Nil
    then show ?thesis unfolding re_alts.simps(3) re_alts_lit two by simp
  next
    case (Cons a s1)
    note s = this
    show ?thesis
    proof (cases s1)
      case Nil
      with s show ?thesis unfolding re_alts.simps(3) re_alts_lit two by simp
    next
      case (Cons b s2)
      note s1 = this
      show ?thesis
      proof (cases s2)
        case Nil
        with s s1 show ?thesis unfolding re_alts.simps(3) re_alts_lit two by simp
      next
        case (Cons d s3)
        with s s1 show ?thesis unfolding re_alts.simps(3) re_alts_lit two
          by (simp add: numeral_3_eq_3 numeral_2_eq_2)
      qed
    qed
  qed
qed

lemma first_rc_part:
  "first (re_alts (Opt (Group 2 (Cat (lit ''rc'') (Atom Digit)))) (s, g)) =
     Some (if starts_with ''rc'' s \<and> 3 \<le> length s \<and> is_digit (s ! 2)
           then (drop 3 s, g(2 \<mapsto> take 3 s)) else (s, g))"
  unfolding re_alts.simps(4) re_alts.simps(6) rc_alts
  by (simp add: first_append)

lemma first_base_part:
  "first (re_alts (Group 1 (Cat (Star Digit) (Cat (Atom (Lit CHR ''.''))
        (Cat (Star Digit) (Opt (Cat (Atom (Lit CHR ''.'')) (Star Digit))))))) (v, g)) =
     (case dropWhile is_digit v of
        [] \<Rightarrow> None
      | c # r2 \<Rightarrow>
          if c = CHR ''.''
          then (let r3 = dropWhile is_digit r2;
                    third = (case r3 of
                               [] \<Rightarrow> []
                             | c3 # r4 \<Rightarrow> if c3 = CHR ''.'' then c3 # takeWhile is_digit r4 else [])
                in Some (drop (length third) r3,
                         g(1 \<mapsto> takeWhile is_digit v @ [c] @ takeWhile is_digit r2 @ third)))
          else None)"
proof (cases "dropWhile is_digit v")
  case Nil
  show ?thesis
    unfolding re_alts.simps(6) base_alts Nil by (simp add: first_map)
next
  case (Cons c r2)
  note r1 = this
  show ?thesis
  proof (cases "c = CHR ''.''")
    case False
    then show ?thesis
      unfolding re_alts.simps(6) base_alts r1 by (simp add: first_map)
  next
    case True
    define r3 where "r3 = dropWhile is_digit r2"
    define third where "third = (case r3 of [] \<Rightarrow> []
        | c3 # r4 \<Rightarrow> if c3 = CHR ''.'' then c3 # takeWhile is_digit r4 else [])"
    define left where "left = drop (length third) r3"
    define base where "base = takeWhile is_digit v @ [c] @ takeWhile is_digit r2 @ third"
    have e1: "takeWhile is_digit v @ c # r2 = v"
      using takeWhile_dropWhile_id [of is_digit v] unfolding r1 .
    have e2: "takeWhile is_digit r2 @ r3 = r2"
      unfolding r3_def by simp
    have e3: "third @ left = r3"
    proof (cases r3)
      case Nil
      then show ?thesis unfolding left_def third_def by simp
    next
      case (Cons c3 r4)
      have "drop (length (takeWhile is_digit r4)) r4 = dropWhile is_digit r4"
        by (simp only: dropWhile_eq_drop)
      with Cons show ?thesis unfolding left_def third_def by simp
    qed
    have left: "(case r3 of [] \<Rightarrow> (r3, g)
           | c3 # r4 \<Rightarrow> if c3 = CHR ''.'' then (dropWhile is_digit r4, g) else (r3, g)) = (left, g)"
    proof (cases r3)
      case Nil
      then show ?thesis unfolding left_def third_def by simp
    next
      case (Cons c3 r4)
      have "drop (length (takeWhile is_digit r4)) r4 = dropWhile is_digit r4"
        by (simp only: dropWhile_eq_drop)
      with Cons show ?thesis unfolding left_def third_def by simp
    qed
    have whole: "base @ left = v"
    proof -
      have "base @ left = takeWhile is_digit v @ c # (takeWhile is_digit r2 @ (third @ left))"
        unfolding base_def by simp
      also have "\<dots> = takeWhile is_digit v @ c # (takeWhile is_digit r2 @ r3)"
        unfolding e3 ..
      also have "\<dots> = takeWhile is_digit v @ c # r2"
        unfolding e2 ..
      also have "\<dots> = v"
        by (rule e1)
      finally show ?thesis .
    qed
    have len: "length v - length left = length base"
      using arg_cong [OF whole, of length] by simp
    have "take (length v - length left) v = take (length base) (base @ left)"
      unfolding len by (simp only: whole)
    then have grp: "take (length v - length left) v = base"
      by simp
    have inner: "first (re_alts (Cat (Star Digit) (Cat (Atom (Lit CHR ''.''))
        (Cat (Star Digit) (Opt (Cat (Atom (Lit CHR ''.'')) (Star Digit)))))) (v, g)) = Some (left, g)"
    proof -
      have "first (re_alts (Cat (Star Digit) (Cat (Atom (Lit CHR ''.''))
        (Cat (Star Digit) (Opt (Cat (Atom (Lit CHR ''.'')) (Star Digit)))))) (v, g))
          = first (re_alts (Cat (Star Digit) (Opt (Cat (Atom (Lit CHR ''.'')) (Star Digit)))) (r2, g))"
        unfolding base_alts r1 using True by (simp del: re_alts.simps)
      also have "\<dots> = Some (case r3 of [] \<Rightarrow> (r3, g)
           | c3 # r4 \<Rightarrow> if c3 = CHR ''.'' then (dropWhile is_digit r4, g) else (r3, g))"
        unfolding first_second_part first_third_part r3_def ..
      finally show ?thesis unfolding left .
    qed
    have lhs: "first (re_alts (Group 1 (Cat (Star Digit) (Cat (Atom (Lit CHR ''.''))
        (Cat (Star Digit) (Opt (Cat (Atom (Lit CHR ''.'')) (Star Digit))))))) (v, g))
        = Some (left, g(1 \<mapsto> takeWhile is_digit v @ [c] @ takeWhile is_digit r2 @ third))"
      unfolding re_alts.simps(6) first_map inner base_def [symmetric] by (simp add: grp)
    have rhs: "(case dropWhile is_digit v of
        [] \<Rightarrow> None
      | c # r2 \<Rightarrow>
          if c = CHR ''.''
          then (let r3 = dropWhile is_digit r2;
                    third = (case r3 of
                               [] \<Rightarrow> []
                             | c3 # r4 \<Rightarrow> if c3 = CHR ''.'' then c3 # takeWhile is_digit r4 else [])
                in Some (drop (length third) r3,
                         g(1 \<mapsto> takeWhile is_digit v @ [c] @ takeWhile is_digit r2 @ third)))
          else None)
       = Some (left, g(1 \<mapsto> takeWhile is_digit v @ [c] @ takeWhile is_digit r2 @ third))"
      unfolding r1 left_def third_def r3_def Let_def using True by simp
    show ?thesis
      unfolding lhs rhs by (rule refl)
  qed
qed

lemma VERSION_PATTERN_match:
  "map_option (\<lambda>g. (g 1, g 2)) (re_match VERSION_PATTERN v)
     = map_option (\<lambda>(base, rc). (Some base, rc)) (version_split v)"
proof -
  let ?B = "Group 1 (Cat (Star Digit) (Cat (Atom (Lit CHR ''.''))
        (Cat (Star Digit) (Opt (Cat (Atom (Lit CHR ''.'')) (Star Digit))))))"
  let ?RC = "Opt (Group 2 (Cat (lit ''rc'') (Atom Digit)))"
  have step: "first (re_alts VERSION_PATTERN (v, Map.empty)) =
          (case first (re_alts ?B (v, Map.empty)) of
             None \<Rightarrow> None
           | Some st \<Rightarrow> first (re_alts ?RC st))"
  proof (cases "first (re_alts ?B (v, Map.empty))")
    case None
    then show ?thesis
      unfolding VERSION_PATTERN_def re_alts.simps(3) [of ?B]
      by (simp only: first_concat_map_None option.case)
  next
    case (Some st)
    obtain s g where st: "st = (s, g)" by (cases st)
    have "first (concat (map (re_alts ?RC) (re_alts ?B (v, Map.empty)))) = first (re_alts ?RC st)"
      using Some
    proof (rule first_concat_map_Some)
      show "first (re_alts ?RC st) \<noteq> None"
        unfolding st first_rc_part by simp
    qed
    then show ?thesis
      unfolding VERSION_PATTERN_def re_alts.simps(3) [of ?B] Some by (simp only: option.case)
  qed
  show ?thesis
  proof (cases "dropWhile is_digit v")
    case Nil
    show ?thesis
      unfolding re_match_first step first_base_part version_split_def Let_def Nil by simp
  next
    case (Cons c r2)
    note r1 = this
    show ?thesis
    proof (cases "c = CHR ''.''")
      case False
      then show ?thesis
        unfolding re_match_first step first_base_part version_split_def Let_def r1 by simp
    next
      case True
      define third where "third = (case dropWhile is_digit r2 of
                               [] \<Rightarrow> []
                             | c3 # r4 \<Rightarrow> if c3 = CHR ''.'' then c3 # takeWhile is_digit r4 else [])"
      define r5 where "r5 = drop (length third) (dropWhile is_digit r2)"
      define base where "base = takeWhile is_digit v @ [c] @ takeWhile is_digit r2 @ third"
      have fb: "first (re_alts ?B (v, Map.empty)) = Some (r5, [1 \<mapsto> base])"
        unfolding first_base_part r1 r5_def base_def third_def Let_def using True by simp
      have vs: "version_split v
          = Some (base, if starts_with ''rc'' r5 \<and> 3 \<le> length r5 \<and> is_digit (r5 ! 2)
                        then Some (take 3 r5) else None)"
        unfolding version_split_def r1 r5_def base_def third_def Let_def using True by simp
      show ?thesis
        unfolding re_match_first step fb vs
        by (simp add: first_rc_part del: re_alts.simps lit.simps starts_with.simps)
    qed
  qed
qed

section \<open>\<open>determine_url\<close> in closed form\<close>

lemma digits_prefix:
  assumes "list_all is_digit a" and "r = [] \<or> \<not> is_digit (hd r)"
  shows "takeWhile is_digit (a @ r) = a" and "dropWhile is_digit (a @ r) = r"
proof -
  from assms(1) have all: "\<forall>x\<in>set a. is_digit x" by (simp add: list_all_iff)
  from assms(2) have "takeWhile is_digit r = []" by (cases r) auto
  with all show "takeWhile is_digit (a @ r) = a" by (simp add: takeWhile_append2)
  from assms(2) have "dropWhile is_digit r = r" by (cases r) auto
  with all show "dropWhile is_digit (a @ r) = r" by (simp add: dropWhile_append2)
qed

lemma not_digit_dot: "\<not> is_digit CHR ''.''" and not_digit_r: "\<not> is_digit CHR ''r''"
  by (simp_all add: is_digit_def)

lemma version_split_None_iff:
  "version_split v = None \<longleftrightarrow> \<not> (\<exists>a rest. list_all is_digit a \<and> v = a @ ''.'' @ rest)"
proof
  assume none: "version_split v = None"
  show "\<not> (\<exists>a rest. list_all is_digit a \<and> v = a @ ''.'' @ rest)"
  proof
    assume "\<exists>a rest. list_all is_digit a \<and> v = a @ ''.'' @ rest"
    then obtain a rest where a: "list_all is_digit a" and v: "v = a @ CHR ''.'' # rest" by auto
    have "dropWhile is_digit v = CHR ''.'' # rest"
      unfolding v using a by (intro digits_prefix) (simp_all add: not_digit_dot)
    with none show False
      by (simp add: version_split_def Let_def)
  qed
next
  assume no: "\<not> (\<exists>a rest. list_all is_digit a \<and> v = a @ ''.'' @ rest)"
  show "version_split v = None"
  proof (cases "dropWhile is_digit v")
    case Nil
    then show ?thesis unfolding version_split_def Let_def Nil by simp
  next
    case (Cons c r2)
    have "c \<noteq> CHR ''.''"
    proof
      assume "c = CHR ''.''"
      with Cons have "v = takeWhile is_digit v @ ''.'' @ r2"
        by (metis append_Cons append_Nil takeWhile_dropWhile_id)
      moreover have "list_all is_digit (takeWhile is_digit v)"
        by (simp add: list_all_iff) (meson set_takeWhileD)
      ultimately show False using no by blast
    qed
    then show ?thesis unfolding version_split_def Let_def Cons by simp
  qed
qed

lemma version_split_wellformed:
  assumes a: "list_all is_digit a" and b: "list_all is_digit b" and c: "list_all is_digit c"
    and base: "base = a @ ''.'' @ b \<or> base = a @ ''.'' @ b @ ''.'' @ c"
    and suffix: "suffix = [] \<or> (\<exists>d. is_digit d \<and> suffix = ''rc'' @ [d])"
  shows "version_split (base @ suffix) = Some (base, if suffix = [] then None else Some suffix)"
proof -
  have sfx: "suffix = [] \<or> \<not> is_digit (hd suffix)"
    using suffix by (auto simp add: not_digit_r)
  have sfx_dot: "suffix = [] \<or> hd suffix \<noteq> CHR ''.''"
    using suffix by auto
  from base show ?thesis
  proof
    assume base: "base = a @ ''.'' @ b"
    have v: "base @ suffix = a @ CHR ''.'' # (b @ suffix)" unfolding base by simp
    have 1: "takeWhile is_digit (base @ suffix) = a"
      and 2: "dropWhile is_digit (base @ suffix) = CHR ''.'' # (b @ suffix)"
      unfolding v using a by (intro digits_prefix; simp add: not_digit_dot)+
    have 3: "takeWhile is_digit (b @ suffix) = b" and 4: "dropWhile is_digit (b @ suffix) = suffix"
      using b sfx by (intro digits_prefix; simp)+
    have third: "(case suffix of [] \<Rightarrow> []
        | c3 # r4 \<Rightarrow> if c3 = CHR ''.'' then c3 # takeWhile is_digit r4 else []) = []"
      using sfx_dot by (cases suffix) auto
    from suffix show ?thesis
    proof
      assume "suffix = []"
      then show ?thesis
        unfolding version_split_def Let_def 1 2 list.case 3 4 third by (simp add: base)
    next
      assume "\<exists>d. is_digit d \<and> suffix = ''rc'' @ [d]"
      then obtain d where "is_digit d" "suffix = ''rc'' @ [d]" by blast
      then show ?thesis
        unfolding version_split_def Let_def 1 2 list.case 3 4 third by (simp add: base)
    qed
  next
    assume base: "base = a @ ''.'' @ b @ ''.'' @ c"
    have v: "base @ suffix = a @ CHR ''.'' # (b @ CHR ''.'' # (c @ suffix))" unfolding base by simp
    have 1: "takeWhile is_digit (base @ suffix) = a"
      and 2: "dropWhile is_digit (base @ suffix) = CHR ''.'' # (b @ CHR ''.'' # (c @ suffix))"
      unfolding v using a by (intro digits_prefix; simp add: not_digit_dot)+
    have 3: "takeWhile is_digit (b @ CHR ''.'' # (c @ suffix)) = b"
      and 4: "dropWhile is_digit (b @ CHR ''.'' # (c @ suffix)) = CHR ''.'' # (c @ suffix)"
      using b by (intro digits_prefix; simp add: not_digit_dot)+
    have 5: "takeWhile is_digit (c @ suffix) = c"
      using c sfx by (intro digits_prefix; simp)
    from suffix show ?thesis
    proof
      assume "suffix = []"
      then show ?thesis
        unfolding version_split_def Let_def 1 2 list.case 3 4 5 by (simp add: base)
    next
      assume "\<exists>d. is_digit d \<and> suffix = ''rc'' @ [d]"
      then obtain d where "is_digit d" "suffix = ''rc'' @ [d]" by blast
      then show ?thesis
        unfolding version_split_def Let_def 1 2 list.case 3 4 5 by (simp add: base)
    qed
  qed
qed

lemma version_split_shape:
  assumes "version_split v = Some (base, rc)"
  shows "\<exists>a b c rest. list_all is_digit a \<and> list_all is_digit b \<and> list_all is_digit c
           \<and> (base = a @ ''.'' @ b \<or> base = a @ ''.'' @ b @ ''.'' @ c)
           \<and> (rc = None \<and> v = base @ rest
              \<or> (\<exists>d. is_digit d \<and> rc = Some (''rc'' @ [d]) \<and> v = base @ ''rc'' @ [d] @ rest))"
proof (cases "dropWhile is_digit v")
  case Nil
  with assms show ?thesis unfolding version_split_def Let_def Nil by simp
next
  case (Cons c0 r2)
  note r1 = this
  define r3 where "r3 = dropWhile is_digit r2"
  define third where "third = (case r3 of [] \<Rightarrow> []
        | c3 # r4 \<Rightarrow> if c3 = CHR ''.'' then c3 # takeWhile is_digit r4 else [])"
  define r5 where "r5 = drop (length third) r3"
  from assms have dot: "c0 = CHR ''.''"
    unfolding version_split_def Let_def r1 by (simp split: if_splits)
  from assms have base: "base = takeWhile is_digit v @ ''.'' @ takeWhile is_digit r2 @ third"
    and rc: "rc = (if starts_with ''rc'' r5 \<and> 3 \<le> length r5 \<and> is_digit (r5 ! 2)
                   then Some (take 3 r5) else None)"
    unfolding version_split_def Let_def r1 third_def r3_def r5_def using dot by simp_all
  have da: "list_all is_digit (takeWhile is_digit v)"
    and db: "list_all is_digit (takeWhile is_digit r2)"
    by (simp_all add: list_all_iff) (meson set_takeWhileD)+
  have e1: "v = takeWhile is_digit v @ CHR ''.'' # r2"
    using r1 dot by (metis takeWhile_dropWhile_id)
  have e2: "r2 = takeWhile is_digit r2 @ r3"
    unfolding r3_def by simp
  have third_cases: "third = [] \<or> (\<exists>r4. r3 = CHR ''.'' # r4 \<and> third = ''.'' @ takeWhile is_digit r4)"
    unfolding third_def by (cases r3) auto
  have e3: "r3 = third @ r5"
  proof (cases r3)
    case Nil
    then show ?thesis unfolding r5_def third_def by simp
  next
    case (Cons c3 r4)
    have "drop (length (takeWhile is_digit r4)) r4 = dropWhile is_digit r4"
      by (simp only: dropWhile_eq_drop)
    with Cons show ?thesis unfolding r5_def third_def by simp
  qed
  have whole: "v = base @ r5"
  proof -
    have "base @ r5 = takeWhile is_digit v @ CHR ''.'' # (takeWhile is_digit r2 @ (third @ r5))"
      unfolding base by simp
    also have "\<dots> = takeWhile is_digit v @ CHR ''.'' # (takeWhile is_digit r2 @ r3)"
      unfolding e3 [symmetric] ..
    also have "\<dots> = takeWhile is_digit v @ CHR ''.'' # r2"
      unfolding e2 [symmetric] ..
    also have "\<dots> = v"
      by (rule e1 [symmetric])
    finally show ?thesis by simp
  qed
  have base_shape: "\<exists>c. list_all is_digit c
      \<and> (base = takeWhile is_digit v @ ''.'' @ takeWhile is_digit r2
         \<or> base = takeWhile is_digit v @ ''.'' @ takeWhile is_digit r2 @ ''.'' @ c)"
    using third_cases
  proof
    assume "third = []"
    then have "base = takeWhile is_digit v @ ''.'' @ takeWhile is_digit r2"
      unfolding base by simp
    moreover have "list_all is_digit []" by simp
    ultimately show ?thesis by blast
  next
    assume "\<exists>r4. r3 = CHR ''.'' # r4 \<and> third = ''.'' @ takeWhile is_digit r4"
    then obtain r4 where t: "third = ''.'' @ takeWhile is_digit r4" by blast
    have "list_all is_digit (takeWhile is_digit r4)"
      by (simp add: list_all_iff) (meson set_takeWhileD)
    moreover have "base = takeWhile is_digit v @ ''.'' @ takeWhile is_digit r2
                      @ ''.'' @ takeWhile is_digit r4"
      unfolding base t by simp
    ultimately show ?thesis by blast
  qed
  have rc_shape: "rc = None \<and> v = base @ r5
      \<or> (\<exists>d rest. is_digit d \<and> rc = Some (''rc'' @ [d]) \<and> v = base @ ''rc'' @ [d] @ rest)"
  proof (cases "starts_with ''rc'' r5 \<and> 3 \<le> length r5 \<and> is_digit (r5 ! 2)")
    case False
    with rc whole show ?thesis by simp
  next
    case True
    then obtain t where t: "r5 = ''rc'' @ t" unfolding starts_with_iff by blast
    with True obtain d rest where t': "t = d # rest" by (cases t) auto
    with t True have d: "is_digit d" by simp
    have "take 3 r5 = ''rc'' @ [d]" unfolding t t' by simp
    with rc True have "rc = Some (''rc'' @ [d])" by simp
    moreover have "v = base @ ''rc'' @ [d] @ rest" using whole t t' by simp
    ultimately show ?thesis using d by blast
  qed
  from base_shape obtain c where "list_all is_digit c"
    and "base = takeWhile is_digit v @ ''.'' @ takeWhile is_digit r2
         \<or> base = takeWhile is_digit v @ ''.'' @ takeWhile is_digit r2 @ ''.'' @ c" by blast
  with da db rc_shape show ?thesis by blast
qed

lemma determine_url_closed:
  "determine_url version bazel_filename =
     (case version_split version of
        None \<Rightarrow> Inl AttributeError
      | Some (base, rc) \<Rightarrow>
          Inr (''https://releases.bazel.build/'' @ base @ ''/''
                 @ (case rc of None \<Rightarrow> ''release'' | Some r \<Rightarrow> r) @ ''/'' @ bazel_filename))"
proof (cases "version_split version")
  case None
  with VERSION_PATTERN_match [of version] have "re_match VERSION_PATTERN version = None"
    by simp
  with None show ?thesis by (simp add: determine_url_def)
next
  case (Some br)
  obtain base rc where br: "br = (base, rc)" by (cases br)
  from VERSION_PATTERN_match [of version] Some br obtain g where
    g: "re_match VERSION_PATTERN version = Some g" "g 1 = Some base" "g 2 = rc"
    by auto
  have "rc \<noteq> Some []"
    using version_split_shape [OF Some [unfolded br]] by auto
  with g Some br show ?thesis
    by (cases rc) (simp_all add: determine_url_def)
qed

section \<open>Version resolution\<close>

lemma example_fresh_history:
  "get_version_history example_world ''/home/u/.bazelisk'' =
     (Inr [''1.0.0'', ''0.29.1''],
      example_world\<lparr>log := [Exists ''/home/u/.bazelisk/latest_bazel'',
                              GetMtime ''/home/u/.bazelisk/latest_bazel'',
                              ReadFile ''/home/u/.bazelisk/latest_bazel'']\<rparr>)"
  by (simp add: get_version_history_def example_world_def path_join_def os_path_exists_def
        os_path_getmtime_def read_file_def record_event_def ONE_HOUR_def strip_def is_space_def
        example_history_text_def quoted_def Let_def)

lemma latest_offset_text_plain: "latest_offset_text ''latest'' = Some None"
  by (simp add: latest_offset_text_def)

lemma takeWhile_all: "\<forall>x\<in>set xs. P x \<Longrightarrow> takeWhile P xs = xs \<and> dropWhile P xs = []"
  by (induction xs) auto

lemma latest_offset_text_digits:
  assumes "ds \<noteq> []" and "list_all is_digit ds"
  shows "latest_offset_text (''latest-'' @ ds) = Some (Some ds)"
  using assms by (simp add: latest_offset_text_def takeWhile_all list_all_iff)

lemma latest_plain_match:
  "py_in ''latest'' ''latest''
   \<and> (\<exists>m. re_match LATEST_PATTERN ''latest'' = Some m \<and> m offset_group = None)"
proof -
  have "map_option (\<lambda>g. g offset_group) (re_match LATEST_PATTERN ''latest'') = Some None"
    by (simp only: LATEST_PATTERN_match latest_offset_text_plain)
  then show ?thesis by auto
qed

lemma latest_digits_match:
  assumes "ds \<noteq> []" and "list_all is_digit ds"
  shows "py_in ''latest'' (''latest-'' @ ds)
         \<and> (\<exists>m. re_match LATEST_PATTERN (''latest-'' @ ds) = Some m \<and> m offset_group = Some ds)"
proof -
  have "map_option (\<lambda>g. g offset_group) (re_match LATEST_PATTERN (''latest-'' @ ds))
          = Some (Some ds)"
    by (simp only: LATEST_PATTERN_match latest_offset_text_digits [OF assms])
  then show ?thesis by auto
qed

lemma py_int_zero: "py_int k ''0'' = Inr 0"
  by (cases k) (simp_all add: py_int_def is_digit_def nat_of_digits_def digit_val_def)

lemma nat_of_digits_Nil: "nat_of_digits [] = 0"
  by (simp add: nat_of_digits_def)

text \<open>What resolution does with \<open>latest\<close> (\<open>ds\<close> empty) and with \<open>latest-ds\<close>, once the history is
  there: \<open>int\<close> refuses a \<open>ds\<close> longer than the interpreter's limit.\<close>

lemma resolve_latest_label:
  assumes label: "version = ''latest'' \<and> ds = []
                  \<or> ds \<noteq> [] \<and> list_all is_digit ds \<and> version = ''latest-'' @ ds"
    and history: "get_version_history w bazelisk_directory = (Inr history, w')"
  shows "resolve_version_label_to_number w bazelisk_directory version
           = (if int_max_str_digits w \<noteq> 0 \<and> int_max_str_digits w < length ds
              then Inl ValueError
              else resolve_latest_version history (nat_of_digits ds),
              w')"
  using label
proof
  assume a: "version = ''latest'' \<and> ds = []"
  from latest_plain_match obtain m where
    "py_in ''latest'' ''latest''" "re_match LATEST_PATTERN ''latest'' = Some m"
    "m offset_group = None" by blast
  with a history show ?thesis
    by (simp add: resolve_version_label_to_number_def py_int_zero nat_of_digits_Nil)
next
  assume a: "ds \<noteq> [] \<and> list_all is_digit ds \<and> version = ''latest-'' @ ds"
  then have ds: "ds \<noteq> []" "list_all is_digit ds" and v: "version = ''latest-'' @ ds"
    by simp_all
  from latest_digits_match [OF ds] obtain m where
    "py_in ''latest'' (''latest-'' @ ds)" "re_match LATEST_PATTERN (''latest-'' @ ds) = Some m"
    "m offset_group = Some ds" by blast
  with ds history show ?thesis
    unfolding v by (auto simp add: resolve_version_label_to_number_def py_int_def)
qed

lemma str_of_nat_2: "str_of_nat (Suc (Suc 0)) = ''2''" and str_of_nat_5: "str_of_nat 5 = ''5''"
  by (simp_all add: str_of_nat.simps digit_char_def)

text \<open>The labels \<open>LATEST_PATTERN\<close> matches, without reference to the matcher: \<open>latest\<close> or
  \<open>latest-\<close> and a non-empty string of digits, either of them possibly followed by one final
  newline.\<close>

lemma latest_shape_iff:
  "(\<exists>ds nl. (nl = [] \<or> nl = [CHR 0x0A])
       \<and> (version = ''latest'' @ nl
          \<or> ds \<noteq> [] \<and> list_all is_digit ds \<and> version = ''latest-'' @ ds @ nl))
   \<longleftrightarrow> latest_offset_text version \<noteq> None"
proof
  assume "\<exists>ds nl. (nl = [] \<or> nl = [CHR 0x0A])
       \<and> (version = ''latest'' @ nl
          \<or> ds \<noteq> [] \<and> list_all is_digit ds \<and> version = ''latest-'' @ ds @ nl)"
  then obtain ds nl where nl: "nl = [] \<or> nl = [CHR 0x0A]"
    and v: "version = ''latest'' @ nl
          \<or> ds \<noteq> [] \<and> list_all is_digit ds \<and> version = ''latest-'' @ ds @ nl"
    by blast
  from v show "latest_offset_text version \<noteq> None"
  proof
    assume "version = ''latest'' @ nl"
    with nl show ?thesis by (auto simp add: latest_offset_text_def)
  next
    assume a: "ds \<noteq> [] \<and> list_all is_digit ds \<and> version = ''latest-'' @ ds @ nl"
    then have all: "\<forall>x\<in>set ds. is_digit x" by (simp add: list_all_iff)
    have nd: "\<not> is_digit (CHR 0x0A)" by (simp add: is_digit_def)
    have "takeWhile is_digit (ds @ nl) = ds \<and> dropWhile is_digit (ds @ nl) = nl"
      using nl all nd by (auto simp add: takeWhile_append2 dropWhile_append2)
    with a nl show ?thesis
      by (auto simp add: latest_offset_text_def Let_def)
  qed
next
  assume some: "latest_offset_text version \<noteq> None"
  then have sw: "starts_with ''latest'' version"
    by (auto simp add: latest_offset_text_def split: if_splits)
  then obtain rest where v: "version = ''latest'' @ rest"
    unfolding starts_with_iff by blast
  show "\<exists>ds nl. (nl = [] \<or> nl = [CHR 0x0A])
       \<and> (version = ''latest'' @ nl
          \<or> ds \<noteq> [] \<and> list_all is_digit ds \<and> version = ''latest-'' @ ds @ nl)"
  proof (cases "rest = [] \<or> rest = [CHR 0x0A]")
    case True
    with v show ?thesis by blast
  next
    case False
    with some v obtain c r1 where rest: "rest = c # r1" and c: "c = CHR ''-''"
      and ds: "takeWhile is_digit r1 \<noteq> []"
      and after: "dropWhile is_digit r1 = [] \<or> dropWhile is_digit r1 = [CHR 0x0A]"
      by (auto simp add: latest_offset_text_def Let_def split: list.splits if_splits)
    have split: "r1 = takeWhile is_digit r1 @ dropWhile is_digit r1" by simp
    have digits: "list_all is_digit (takeWhile is_digit r1)"
      by (simp add: list_all_iff) (meson set_takeWhileD)
    have "version = ''latest-'' @ takeWhile is_digit r1 @ dropWhile is_digit r1"
      using v rest c by simp
    with ds digits after show ?thesis by blast
  qed
qed

text \<open>
  Claim C1, as amended. For the label \<open>latest\<close> (\<open>ds\<close> empty, offset 0) and for every label
  \<open>latest-ds\<close>, \<open>ds\<close> a non-empty string of decimal digits read as the number \<open>N\<close>, and every
  release history the cache lookup returns: when \<open>ds\<close> has no more digits than the
  interpreter's limit for \<open>int\<close> (4300 by default; no limit when it is 0), resolution returns
  \<open>history[N]\<close> if \<open>N < len(history)\<close> and otherwise fails with the error the specification
  calls \<open>VersionOffsetOutOfRange\<close>, whose message names the offset as the label \<open>latest-N\<close>
  (\<open>latest\<close> for offset 0) and gives \<open>len(history)\<close>; when \<open>ds\<close> is longer than the limit,
  resolution fails with \<open>ValueError\<close>, after the history lookup.
\<close>

theorem latest_label_resolution:
  assumes label: "version = ''latest'' \<and> ds = []
                  \<or> ds \<noteq> [] \<and> list_all is_digit ds \<and> version = ''latest-'' @ ds"
    and history: "get_version_history w bazelisk_directory = (Inr history, w')"
  shows "resolve_version_label_to_number w bazelisk_directory version
           = (if int_max_str_digits w \<noteq> 0 \<and> int_max_str_digits w < length ds
              then Inl ValueError
              else if nat_of_digits ds < length history
              then Inr (history ! nat_of_digits ds)
              else Inl (VersionOffsetOutOfRange
                     (''Cannot resolve version ''
                        @ quoted (if nat_of_digits ds \<noteq> 0
                                  then ''latest-'' @ str_of_nat (nat_of_digits ds)
                                  else ''latest'')
                        @ '': There are only '' @ str_of_nat (length history)
                        @ '' Bazel releases.'')),
              w')"
  unfolding resolve_latest_label [OF label history]
  by (simp add: resolve_latest_version_def Let_def)

theorem latest_label_resolution_witness:
  "resolve_version_label_to_number example_world ''/home/u/.bazelisk'' ''latest'' =
     (Inr ''1.0.0'', snd (get_version_history example_world ''/home/u/.bazelisk''))
   \<and> resolve_version_label_to_number example_world ''/home/u/.bazelisk'' ''latest-1'' =
     (Inr ''0.29.1'', snd (get_version_history example_world ''/home/u/.bazelisk''))
   \<and> resolve_version_label_to_number example_world ''/home/u/.bazelisk'' ''latest-5'' =
     (Inl (VersionOffsetOutOfRange
        (''Cannot resolve version '' @ quoted ''latest-5''
           @ '': There are only 2 Bazel releases.'')),
      snd (get_version_history example_world ''/home/u/.bazelisk''))"
proof -
  let ?w' = "snd (get_version_history example_world ''/home/u/.bazelisk'')"
  have h: "get_version_history example_world ''/home/u/.bazelisk'' = (Inr [''1.0.0'', ''0.29.1''], ?w')"
    by (simp add: example_fresh_history)
  have lim: "int_max_str_digits example_world = 4300"
    by (simp add: example_world_def)
  have l0: "''latest'' = ''latest'' \<and> ([] :: string) = []
            \<or> ([] :: string) \<noteq> [] \<and> list_all is_digit [] \<and> ''latest'' = ''latest-'' @ []"
    by simp
  have l1: "''latest-1'' = ''latest'' \<and> ''1'' = []
            \<or> ''1'' \<noteq> [] \<and> list_all is_digit ''1'' \<and> ''latest-1'' = ''latest-'' @ ''1''"
    by (simp add: is_digit_def)
  have l5: "''latest-5'' = ''latest'' \<and> ''5'' = []
            \<or> ''5'' \<noteq> [] \<and> list_all is_digit ''5'' \<and> ''latest-5'' = ''latest-'' @ ''5''"
    by (simp add: is_digit_def)
  have n1: "nat_of_digits ''1'' = 1" and n5: "nat_of_digits ''5'' = 5"
    by (simp_all add: nat_of_digits_def digit_val_def)
  show ?thesis
    using latest_label_resolution [OF l0 h] latest_label_resolution [OF l1 h]
      latest_label_resolution [OF l5 h]
    unfolding n1 n5 nat_of_digits_Nil lim
    by (simp add: str_of_nat_2 str_of_nat_5)
qed

text \<open>The claim as it was stated fails on a label whose offset has 4301 digits: under the
  default limit the result is \<open>ValueError\<close>, neither an entry of the history nor the
  out-of-range error.\<close>

theorem latest_label_resolution_counterexample:
  "resolve_version_label_to_number example_world ''/home/u/.bazelisk''
      (''latest-'' @ replicate 4301 CHR ''9'')
     = (Inl ValueError, snd (get_version_history example_world ''/home/u/.bazelisk''))"
proof -
  let ?w' = "snd (get_version_history example_world ''/home/u/.bazelisk'')"
  have h: "get_version_history example_world ''/home/u/.bazelisk'' = (Inr [''1.0.0'', ''0.29.1''], ?w')"
    by (simp add: example_fresh_history)
  have lim: "int_max_str_digits example_world = 4300"
    by (simp add: example_world_def)
  have nine: "is_digit CHR ''9''" by (simp add: is_digit_def)
  have l: "''latest-'' @ replicate 4301 CHR ''9'' = ''latest'' \<and> replicate 4301 CHR ''9'' = []
           \<or> replicate 4301 CHR ''9'' \<noteq> [] \<and> list_all is_digit (replicate 4301 CHR ''9'')
              \<and> ''latest-'' @ replicate 4301 CHR ''9'' = ''latest-'' @ replicate 4301 CHR ''9''"
    using nine by (simp add: list_all_iff)
  show ?thesis
    unfolding resolve_latest_label [OF l h] by (simp add: lim)
qed

text \<open>
  Claim C2. A label that does not contain \<open>latest\<close> is returned as it is, whatever its form,
  and the world comes back unchanged: its log has no new entry, so neither the cache file
  nor the network was touched.
\<close>

theorem literal_label_unchanged:
  assumes "\<not> (\<exists>p s. version = p @ ''latest'' @ s)"
  shows "resolve_version_label_to_number w bazelisk_directory version = (Inr version, w)"
  using assms by (simp add: resolve_version_label_to_number_def py_in_iff)

theorem literal_label_unchanged_witness:
  "\<not> (\<exists>p s. ''0.20.0'' = p @ ''latest'' @ s)
   \<and> resolve_version_label_to_number example_world ''/home/u/.bazelisk'' ''0.20.0''
       = (Inr ''0.20.0'', example_world)"
proof -
  have no: "\<not> (\<exists>p s. ''0.20.0'' = p @ ''latest'' @ s)"
    unfolding py_in_iff [symmetric] by simp
  from no literal_label_unchanged [OF no] show ?thesis by blast
qed

text \<open>
  Claim C3, as amended. A label that contains \<open>latest\<close> and is neither \<open>latest\<close> nor \<open>latest-\<close>
  followed by a non-empty string of digits, each of the two possibly followed by one final
  newline, makes resolution fail with the error the specification calls
  \<open>InvalidVersionLabel\<close>; the world comes back unchanged, so the release history was not
  fetched. (Labels are strings of 8-bit characters here, on which \<open>\d\<close> is an ASCII digit.)
\<close>

theorem invalid_latest_label:
  assumes contains: "\<exists>p s. version = p @ ''latest'' @ s"
    and shape: "\<not> (\<exists>ds nl. (nl = [] \<or> nl = [CHR 0x0A])
                   \<and> (version = ''latest'' @ nl
                      \<or> ds \<noteq> [] \<and> list_all is_digit ds \<and> version = ''latest-'' @ ds @ nl))"
  shows "resolve_version_label_to_number w bazelisk_directory version
           = (Inl (InvalidVersionLabel (invalid_version_message version)), w)"
proof -
  from shape have "latest_offset_text version = None"
    unfolding latest_shape_iff by simp
  then have "map_option (\<lambda>g. g offset_group) (re_match LATEST_PATTERN version) = None"
    by (simp only: LATEST_PATTERN_match)
  then have "re_match LATEST_PATTERN version = None"
    by simp
  with contains show ?thesis
    by (simp add: resolve_version_label_to_number_def py_in_iff)
qed

theorem invalid_latest_label_witness:
  "(\<exists>p s. ''latest2'' = p @ ''latest'' @ s)
   \<and> \<not> (\<exists>ds nl. (nl = [] \<or> nl = [CHR 0x0A])
           \<and> (''latest2'' = ''latest'' @ nl
              \<or> ds \<noteq> [] \<and> list_all is_digit ds \<and> ''latest2'' = ''latest-'' @ ds @ nl))
   \<and> resolve_version_label_to_number example_world ''/home/u/.bazelisk'' ''latest2''
       = (Inl (InvalidVersionLabel (invalid_version_message ''latest2'')), example_world)"
proof -
  have c: "\<exists>p s. ''latest2'' = p @ ''latest'' @ s"
    unfolding py_in_iff [symmetric] by simp
  have s: "\<not> (\<exists>ds nl. (nl = [] \<or> nl = [CHR 0x0A])
           \<and> (''latest2'' = ''latest'' @ nl
              \<or> ds \<noteq> [] \<and> list_all is_digit ds \<and> ''latest2'' = ''latest-'' @ ds @ nl))"
    unfolding latest_shape_iff by (simp add: latest_offset_text_def)
  from c s invalid_latest_label [OF c s] show ?thesis by blast
qed

text \<open>The claim as it was stated fails on \<open>latest\<close> followed by a newline: the label contains
  \<open>latest\<close>, is not \<open>latest\<close> and does not begin with \<open>latest-\<close>, and is resolved like
  \<open>latest\<close>.\<close>

theorem invalid_latest_label_counterexample:
  "py_in ''latest'' (''latest'' @ [CHR 0x0A])
   \<and> ''latest'' @ [CHR 0x0A] \<noteq> ''latest''
   \<and> \<not> starts_with ''latest-'' (''latest'' @ [CHR 0x0A])
   \<and> fst (resolve_version_label_to_number example_world ''/home/u/.bazelisk''
            (''latest'' @ [CHR 0x0A])) = Inr ''1.0.0''"
proof -
  have m: "re_match LATEST_PATTERN (''latest'' @ [CHR 0x0A]) = Some Map.empty"
    by (simp add: re_match_def LATEST_PATTERN_def Plus_def offset_group_def)
  show ?thesis
    using m
    by (simp add: resolve_version_label_to_number_def example_fresh_history py_int_zero
          resolve_latest_version_def)
qed

section \<open>The binary locator\<close>

lemma lower_examples:
  "lower ''AMD64'' = ''amd64''" "lower ''x86_64'' = ''x86_64''" "lower ''arm64'' = ''arm64''"
  "lower ''Linux'' = ''linux''" "lower ''Windows'' = ''windows''" "lower ''Darwin'' = ''darwin''"
  "lower ''FreeBSD'' = ''freebsd''"
  by code_simp+

text \<open>
  Claim C8. The architecture is \<open>platform.machine()\<close> in lower case with \<open>amd64\<close> turned into
  \<open>x86_64\<close>; when it is not \<open>x86_64\<close> the result is the error the specification calls
  \<open>UnsupportedArchitecture\<close>. Otherwise, when \<open>platform.system()\<close> in lower case is not one of
  \<open>linux\<close>, \<open>darwin\<close>, \<open>windows\<close>, the result is the error called
  \<open>UnsupportedOperatingSystem\<close>. Otherwise the result is \<open>bazel-<version>-<os>-x86_64\<close>,
  followed by \<open>.exe\<close> exactly when the system is \<open>windows\<close>.
\<close>

theorem bazel_filename:
  "determine_bazel_filename w version =
     (let arch = (if lower (platform_machine w) = ''amd64'' then ''x86_64''
                  else lower (platform_machine w));
          os = lower (platform_system w)
      in if arch \<noteq> ''x86_64''
         then Inl (UnsupportedArchitecture
                (''Unsupported machine architecture '' @ quoted arch
                   @ ''. Bazel currently only supports x86_64.''))
         else if os \<noteq> ''linux'' \<and> os \<noteq> ''darwin'' \<and> os \<noteq> ''windows''
         then Inl (UnsupportedOperatingSystem
                (''Unsupported operating system '' @ quoted os @ ''. ''
                   @ ''Bazel currently only supports Linux, macOS and Windows.''))
         else Inr (''bazel-'' @ version @ ''-'' @ os @ ''-x86_64''
                     @ (if os = ''windows'' then ''.exe'' else [])))"
  by (simp add: determine_bazel_filename_def normalized_machine_arch_name_def Let_def)

theorem bazel_filename_witness:
  "determine_bazel_filename (example_world\<lparr>platform_machine := ''x86_64''\<rparr>) ''1.0.0''
     = Inr ''bazel-1.0.0-linux-x86_64''
   \<and> determine_bazel_filename (example_world\<lparr>platform_system := ''Windows''\<rparr>) ''1.0.0''
     = Inr ''bazel-1.0.0-windows-x86_64.exe''
   \<and> determine_bazel_filename (example_world\<lparr>platform_system := ''Darwin''\<rparr>) ''1.0.0''
     = Inr ''bazel-1.0.0-darwin-x86_64''
   \<and> determine_bazel_filename (example_world\<lparr>platform_machine := ''arm64''\<rparr>) ''1.0.0''
     = Inl (UnsupportedArchitecture
          (''Unsupported machine architecture '' @ quoted ''arm64''
             @ ''. Bazel currently only supports x86_64.''))
   \<and> determine_bazel_filename (example_world\<lparr>platform_system := ''FreeBSD''\<rparr>) ''1.0.0''
     = Inl (UnsupportedOperatingSystem
          (''Unsupported operating system '' @ quoted ''freebsd'' @ ''. ''
             @ ''Bazel currently only supports Linux, macOS and Windows.''))"
  using bazel_filename [of "example_world\<lparr>platform_machine := ''x86_64''\<rparr>" "''1.0.0''"]
    bazel_filename [of "example_world\<lparr>platform_system := ''Windows''\<rparr>" "''1.0.0''"]
    bazel_filename [of "example_world\<lparr>platform_system := ''Darwin''\<rparr>" "''1.0.0''"]
    bazel_filename [of "example_world\<lparr>platform_machine := ''arm64''\<rparr>" "''1.0.0''"]
    bazel_filename [of "example_world\<lparr>platform_system := ''FreeBSD''\<rparr>" "''1.0.0''"]
  by (simp add: example_world_def lower_examples Let_def)

text \<open>
  Claim C7, as amended. \<open>determine_url\<close> matches \<open>(\d*\.\d*(?:\.\d*)?)(rc\d)?\<close> at the start of the
  version, greedily, and ignores what follows the match: it is \<open>version_split\<close>. When it
  returns a URL, the base in it is digits, a dot and digits, possibly followed by a dot and
  digits (each run of digits possibly empty), the segment is \<open>rc\<close> and the digit that follows
  the base in the version when there is one and \<open>release\<close> otherwise, and the URL is
  \<open>https://releases.bazel.build/<base>/<segment>/<filename>\<close>. A version that is such a base
  followed by nothing or by \<open>rc\<close> and a digit is split into exactly these two parts; so
  \<open>0.20.0\<close> gives the segment \<open>release\<close> and \<open>0.20.0rc1\<close> the base \<open>0.20.0\<close> and the segment \<open>rc1\<close>.
  A version whose leading digits are not followed by a dot has no URL: \<open>AttributeError\<close>.
\<close>

theorem url_derivation:
  "determine_url version bazel_filename =
     (case version_split version of
        None \<Rightarrow> Inl AttributeError
      | Some (base, rc) \<Rightarrow>
          Inr (''https://releases.bazel.build/'' @ base @ ''/''
                 @ (case rc of None \<Rightarrow> ''release'' | Some r \<Rightarrow> r) @ ''/'' @ bazel_filename))
   \<and> (\<forall>url. determine_url version bazel_filename = Inr url \<longrightarrow>
         (\<exists>a b c base seg rest.
            list_all is_digit a \<and> list_all is_digit b \<and> list_all is_digit c
            \<and> (base = a @ ''.'' @ b \<or> base = a @ ''.'' @ b @ ''.'' @ c)
            \<and> (seg = ''release'' \<and> version = base @ rest
               \<or> (\<exists>d. is_digit d \<and> seg = ''rc'' @ [d] \<and> version = base @ seg @ rest))
            \<and> url = ''https://releases.bazel.build/'' @ base @ ''/'' @ seg @ ''/''
                      @ bazel_filename))
   \<and> (\<forall>a b c base suffix.
         list_all is_digit a \<and> list_all is_digit b \<and> list_all is_digit c
         \<and> (base = a @ ''.'' @ b \<or> base = a @ ''.'' @ b @ ''.'' @ c)
         \<and> (suffix = [] \<or> (\<exists>d. is_digit d \<and> suffix = ''rc'' @ [d]))
         \<longrightarrow> determine_url (base @ suffix) bazel_filename
               = Inr (''https://releases.bazel.build/'' @ base @ ''/''
                        @ (if suffix = [] then ''release'' else suffix) @ ''/'' @ bazel_filename))
   \<and> (determine_url version bazel_filename = Inl AttributeError
        \<longleftrightarrow> \<not> (\<exists>a rest. list_all is_digit a \<and> version = a @ ''.'' @ rest))
   \<and> determine_url ''0.20.0'' bazel_filename
        = Inr (''https://releases.bazel.build/0.20.0/release/'' @ bazel_filename)
   \<and> determine_url ''0.20.0rc1'' bazel_filename
        = Inr (''https://releases.bazel.build/0.20.0/rc1/'' @ bazel_filename)"
proof (intro conjI allI impI)
  show "determine_url version bazel_filename =
     (case version_split version of
        None \<Rightarrow> Inl AttributeError
      | Some (base, rc) \<Rightarrow>
          Inr (''https://releases.bazel.build/'' @ base @ ''/''
                 @ (case rc of None \<Rightarrow> ''release'' | Some r \<Rightarrow> r) @ ''/'' @ bazel_filename))"
    by (rule determine_url_closed)
next
  fix url
  assume ok: "determine_url version bazel_filename = Inr url"
  then obtain base rc where vs: "version_split version = Some (base, rc)"
    and url: "url = ''https://releases.bazel.build/'' @ base @ ''/''
                 @ (case rc of None \<Rightarrow> ''release'' | Some r \<Rightarrow> r) @ ''/'' @ bazel_filename"
    unfolding determine_url_closed by (auto split: option.splits)
  from version_split_shape [OF vs] obtain a b c rest where
    abc: "list_all is_digit a" "list_all is_digit b" "list_all is_digit c"
      "base = a @ ''.'' @ b \<or> base = a @ ''.'' @ b @ ''.'' @ c"
    and rc: "rc = None \<and> version = base @ rest
              \<or> (\<exists>d. is_digit d \<and> rc = Some (''rc'' @ [d]) \<and> version = base @ ''rc'' @ [d] @ rest)"
    by blast
  from rc show "\<exists>a b c base seg rest.
            list_all is_digit a \<and> list_all is_digit b \<and> list_all is_digit c
            \<and> (base = a @ ''.'' @ b \<or> base = a @ ''.'' @ b @ ''.'' @ c)
            \<and> (seg = ''release'' \<and> version = base @ rest
               \<or> (\<exists>d. is_digit d \<and> seg = ''rc'' @ [d] \<and> version = base @ seg @ rest))
            \<and> url = ''https://releases.bazel.build/'' @ base @ ''/'' @ seg @ ''/''
                      @ bazel_filename"
  proof
    assume "rc = None \<and> version = base @ rest"
    with url have "url = ''https://releases.bazel.build/'' @ base @ ''/'' @ ''release'' @ ''/''
                      @ bazel_filename" and "version = base @ rest" by simp_all
    with abc show ?thesis by blast
  next
    assume "\<exists>d. is_digit d \<and> rc = Some (''rc'' @ [d]) \<and> version = base @ ''rc'' @ [d] @ rest"
    then obtain d where d: "is_digit d" and r: "rc = Some (''rc'' @ [d])"
      and v: "version = base @ (''rc'' @ [d]) @ rest" by auto
    from url r have "url = ''https://releases.bazel.build/'' @ base @ ''/'' @ (''rc'' @ [d]) @ ''/''
                      @ bazel_filename" by simp
    with abc d v show ?thesis by blast
  qed
next
  fix a b c base suffix
  assume h: "list_all is_digit a \<and> list_all is_digit b \<and> list_all is_digit c
         \<and> (base = a @ ''.'' @ b \<or> base = a @ ''.'' @ b @ ''.'' @ c)
         \<and> (suffix = [] \<or> (\<exists>d. is_digit d \<and> suffix = ''rc'' @ [d]))"
  then have "version_split (base @ suffix) = Some (base, if suffix = [] then None else Some suffix)"
    by (intro version_split_wellformed [of a b c]) simp_all
  then show "determine_url (base @ suffix) bazel_filename
               = Inr (''https://releases.bazel.build/'' @ base @ ''/''
                        @ (if suffix = [] then ''release'' else suffix) @ ''/'' @ bazel_filename)"
    unfolding determine_url_closed by simp
next
  show "(determine_url version bazel_filename = Inl AttributeError)
        = (\<not> (\<exists>a rest. list_all is_digit a \<and> version = a @ ''.'' @ rest))"
    unfolding version_split_None_iff [symmetric] determine_url_closed
    by (auto split: option.splits)
next
  show "determine_url ''0.20.0'' bazel_filename
        = Inr (''https://releases.bazel.build/0.20.0/release/'' @ bazel_filename)"
    unfolding determine_url_closed by (simp add: version_split_def is_digit_def)
next
  show "determine_url ''0.20.0rc1'' bazel_filename
        = Inr (''https://releases.bazel.build/0.20.0/rc1/'' @ bazel_filename)"
    unfolding determine_url_closed by (simp add: version_split_def is_digit_def)
qed

theorem url_derivation_witness:
  "determine_url ''4.2.1rc3'' ''bazel-4.2.1rc3-linux-x86_64''
     = Inr ''https://releases.bazel.build/4.2.1/rc3/bazel-4.2.1rc3-linux-x86_64''
   \<and> determine_url ''12.0'' ''bazel-12.0-linux-x86_64''
     = Inr ''https://releases.bazel.build/12.0/release/bazel-12.0-linux-x86_64''
   \<and> determine_url ''abc'' ''bazel-abc-linux-x86_64'' = Inl AttributeError"
proof -
  have h1: "list_all is_digit ''4'' \<and> list_all is_digit ''2'' \<and> list_all is_digit ''1''
         \<and> (''4.2.1'' = ''4'' @ ''.'' @ ''2'' \<or> ''4.2.1'' = ''4'' @ ''.'' @ ''2'' @ ''.'' @ ''1'')
         \<and> (''rc3'' = [] \<or> (\<exists>d. is_digit d \<and> ''rc3'' = ''rc'' @ [d]))"
    by (simp add: is_digit_def)
  have h2: "list_all is_digit ''12'' \<and> list_all is_digit ''0'' \<and> list_all is_digit []
         \<and> (''12.0'' = ''12'' @ ''.'' @ ''0'' \<or> ''12.0'' = ''12'' @ ''.'' @ ''0'' @ ''.'' @ [])
         \<and> (([]::string) = [] \<or> (\<exists>d. is_digit d \<and> ([]::string) = ''rc'' @ [d]))"
    by (simp add: is_digit_def)
  have 1: "determine_url (''4.2.1'' @ ''rc3'') ''bazel-4.2.1rc3-linux-x86_64''
     = Inr (''https://releases.bazel.build/'' @ ''4.2.1'' @ ''/''
              @ (if ''rc3'' = [] then ''release'' else ''rc3'') @ ''/'' @ ''bazel-4.2.1rc3-linux-x86_64'')"
    by (rule url_derivation [of "''4.2.1rc3''" "''bazel-4.2.1rc3-linux-x86_64''",
          THEN conjunct2, THEN conjunct2, THEN conjunct1, rule_format, OF h1])
  have 2: "determine_url (''12.0'' @ []) ''bazel-12.0-linux-x86_64''
     = Inr (''https://releases.bazel.build/'' @ ''12.0'' @ ''/''
              @ (if ([]::string) = [] then ''release'' else []) @ ''/'' @ ''bazel-12.0-linux-x86_64'')"
    by (rule url_derivation [of "''12.0''" "''bazel-12.0-linux-x86_64''",
          THEN conjunct2, THEN conjunct2, THEN conjunct1, rule_format, OF h2])
  have "\<not> (\<exists>a rest. list_all is_digit a \<and> ''abc'' = a @ ''.'' @ rest)"
    unfolding version_split_None_iff [symmetric] by (simp add: version_split_def is_digit_def)
  then have 3: "determine_url ''abc'' ''bazel-abc-linux-x86_64'' = Inl AttributeError"
    using url_derivation [of "''abc''" "''bazel-abc-linux-x86_64''",
          THEN conjunct2, THEN conjunct2, THEN conjunct2, THEN conjunct1]
    by simp
  from 1 2 3 show ?thesis by simp
qed

text \<open>The claim as it was stated fails on the version \<open>1.\<close>: the URL is built with the base
  \<open>1.\<close>, which is not digits, a dot and digits with both runs non-empty, with or without a
  third run: such a string ends in a digit.\<close>

theorem url_derivation_counterexample:
  "determine_url ''1.'' ''bazel-1.-linux-x86_64''
     = Inr ''https://releases.bazel.build/1./release/bazel-1.-linux-x86_64''
   \<and> \<not> (\<exists>a b c. a \<noteq> [] \<and> b \<noteq> [] \<and> c \<noteq> []
           \<and> list_all is_digit a \<and> list_all is_digit b \<and> list_all is_digit c
           \<and> (''1.'' = a @ ''.'' @ b \<or> ''1.'' = a @ ''.'' @ b @ ''.'' @ c))"
proof
  show "determine_url ''1.'' ''bazel-1.-linux-x86_64''
     = Inr ''https://releases.bazel.build/1./release/bazel-1.-linux-x86_64''"
    unfolding determine_url_closed by (simp add: version_split_def is_digit_def)
next
  show "\<not> (\<exists>a b c. a \<noteq> [] \<and> b \<noteq> [] \<and> c \<noteq> []
           \<and> list_all is_digit a \<and> list_all is_digit b \<and> list_all is_digit c
           \<and> (''1.'' = a @ ''.'' @ b \<or> ''1.'' = a @ ''.'' @ b @ ''.'' @ c))"
  proof
    assume "\<exists>a b c. a \<noteq> [] \<and> b \<noteq> [] \<and> c \<noteq> []
           \<and> list_all is_digit a \<and> list_all is_digit b \<and> list_all is_digit c
           \<and> (''1.'' = a @ ''.'' @ b \<or> ''1.'' = a @ ''.'' @ b @ ''.'' @ c)"
    then obtain a b c where ne: "b \<noteq> []" "c \<noteq> []"
      and dg: "list_all is_digit b" "list_all is_digit c"
      and eq: "''1.'' = a @ ''.'' @ b \<or> ''1.'' = a @ ''.'' @ b @ ''.'' @ c" by blast
    from eq have "last ''1.'' = last b \<or> last ''1.'' = last c"
      using ne by (metis append_is_Nil_conv last_appendR)
    moreover have "is_digit (last b)" "is_digit (last c)"
      using ne dg by (simp_all add: list_all_iff)
    ultimately show False by (auto simp add: is_digit_def)
  qed
qed

section \<open>A literal label that is not a version\<close>










section \<open>The release history and its cache\<close>










end
